theory Spec2Isabelle
  imports Main "HOL-Library.Word"
begin

unbundle bit_operations_syntax

section \<open>A SOCKS5 relay session (src/main.py)\<close>

text \<open>
  The development embeds one session of the relay: the \<open>SocketWrapper\<close> operations, the
  handshake and connect logic of \<open>SocksServer.handle_connection_core\<close>, the copy loop
  \<open>SocksServer.forward\<close> and the scope guards of \<open>SocksServer.handle_connection\<close>.

  Everything the network does is data of the model. A connection carries the bytes its peer
  will deliver, what a read meets once they are used up, how much each \<open>read\<close> call finds
  buffered, how each \<open>drain\<close> ends, and whether and how \<open>wait_closed\<close> ends. Deadlines
  are not measured: a read or drain that \<open>asyncio.wait_for\<close> cuts off is a connection whose
  script says \<open>TimeoutError\<close> at that point. \<open>wait_closed\<close> is awaited under no deadline,
  so a connection may also say that it never ends.
\<close>

subsection \<open>Bytes, exceptions, text\<close>

type_synonym byte = "8 word"

text \<open>The exception classes a session can meet; \<open>type(e).__name__\<close> is the constructor.\<close>

datatype exn =
    IncompleteReadError
  | TimeoutError
  | ConnectionResetError
  | ConnectionRefusedError
  | BrokenPipeError
  | Gaierror
  | UnicodeDecodeError
  | ValueError
  | TypeError

text \<open>A Python \<open>str\<close> is a sequence of code points.\<close>

type_synonym str = "nat list"

datatype family = AF_INET | AF_INET6

text \<open>
  The host handed to \<open>asyncio.open_connection\<close>. \<open>socket.inet_ntop\<close> is a library
  function that renders 4 or 16 bytes as text, one text per address; its result is kept as
  the call itself. A decoded domain name is the text read from the wire.
\<close>

datatype host = Inet_ntop family "byte list" | Name str

subsection \<open>\<open>bytes.decode()\<close>: strict UTF-8\<close>

text \<open>
  \<open>data.decode()\<close> decodes UTF-8 and raises \<open>UnicodeDecodeError\<close> on any ill-formed
  sequence: a stray continuation byte, an overlong form, a surrogate, a value above
  U+10FFFF, or a sequence cut short. \<open>None\<close> is the raise.
\<close>

definition cont :: "byte \<Rightarrow> bool" where
  "cont b \<longleftrightarrow> 0x80 \<le> b \<and> b \<le> 0xBF"

definition low6 :: "byte \<Rightarrow> nat" where
  "low6 b = unat (b AND 0x3F)"

fun utf8_decode :: "byte list \<Rightarrow> str option" where
  "utf8_decode [] = Some []"
| "utf8_decode (b # bs) =
     (if b < 0x80 then map_option ((#) (unat b)) (utf8_decode bs)
      else if 0xC2 \<le> b \<and> b \<le> 0xDF then
        (case bs of
           c1 # r \<Rightarrow>
             if cont c1
             then map_option ((#) (unat (b AND 0x1F) * 64 + low6 c1)) (utf8_decode r)
             else None
         | _ \<Rightarrow> None)
      else if 0xE0 \<le> b \<and> b \<le> 0xEF then
        (case bs of
           c1 # c2 # r \<Rightarrow>
             if cont c1 \<and> cont c2 \<and> (b = 0xE0 \<longrightarrow> 0xA0 \<le> c1) \<and> (b = 0xED \<longrightarrow> c1 \<le> 0x9F)
             then map_option ((#) (unat (b AND 0x0F) * 4096 + low6 c1 * 64 + low6 c2))
                    (utf8_decode r)
             else None
         | _ \<Rightarrow> None)
      else if 0xF0 \<le> b \<and> b \<le> 0xF4 then
        (case bs of
           c1 # c2 # c3 # r \<Rightarrow>
             if cont c1 \<and> cont c2 \<and> cont c3 \<and> (b = 0xF0 \<longrightarrow> 0x90 \<le> c1)
                \<and> (b = 0xF4 \<longrightarrow> c1 \<le> 0x8F)
             then map_option
                    ((#) (unat (b AND 0x07) * 262144 + low6 c1 * 4096 + low6 c2 * 64 + low6 c3))
                    (utf8_decode r)
             else None
         | _ \<Rightarrow> None)
      else None)"

subsection \<open>Connections and sockets\<close>

text \<open>What a read meets once the peer's bytes are used up: end of stream, or an exception.\<close>

datatype stream_end = Eof | Fails exn

text \<open>
  How \<open>writer.wait_closed()\<close> ends: it returns, it raises, or it stays pending for good
  (the transport still holds bytes that the peer never takes, so the connection is never
  reported lost).
\<close>

datatype wait_end = Wait_returns | Wait_raises exn | Wait_pending

text \<open>
  A raw \<open>(reader, writer)\<close> pair as asyncio hands it over.
  \<^item> \<open>inbound\<close>: the bytes the reader will still yield, in order;
  \<^item> \<open>fin\<close>: what follows them;
  \<^item> \<open>sizes\<close>: how many bytes each successive \<open>read\<close> call finds buffered (a call
    with no entry left finds as much as it asks for);
  \<^item> \<open>wfaults\<close>: how each successive \<open>drain\<close> ends (no entry left: it returns);
  \<^item> \<open>wc_end\<close>: how \<open>wait_closed\<close> ends, if it does;
  \<^item> \<open>peername\<close>: \<open>get_extra_info('peername')\<close>, \<open>None\<close> when the transport has none.
\<close>

record conn =
  inbound :: "byte list"
  fin :: stream_end
  sizes :: "nat list"
  wfaults :: "exn option list"
  wc_end :: wait_end
  peername :: "(str \<times> nat) option"

text \<open>
  A \<open>SocketWrapper\<close>: the connection and its history. \<open>taken\<close> lists the chunks that
  \<open>read\<close> returned, \<open>outbound\<close> the arguments of \<open>writer.write\<close>, both oldest first;
  \<open>closed\<close> says that \<open>writer.close()\<close> has been called.
\<close>

record sock = conn +
  taken :: "byte list list"
  outbound :: "byte list list"
  closed :: bool

definition SocketWrapper :: "conn \<Rightarrow> sock" where
  "SocketWrapper c =
     \<lparr>inbound = inbound c, fin = fin c, sizes = sizes c, wfaults = wfaults c,
      wc_end = wc_end c, peername = peername c,
      taken = [], outbound = [], closed = False\<rparr>"

subsection \<open>Operations that return or raise\<close>

type_synonym ('s, 'a) io = "'s \<Rightarrow> (exn + 'a) \<times> 's"

definition return_io :: "'a \<Rightarrow> ('s, 'a) io" where
  "return_io a = (\<lambda>s. (Inr a, s))"

definition raise_io :: "exn \<Rightarrow> ('s, 'a) io" where
  "raise_io e = (\<lambda>s. (Inl e, s))"

definition bind_io :: "('s, 'a) io \<Rightarrow> ('a \<Rightarrow> ('s, 'b) io) \<Rightarrow> ('s, 'b) io" where
  "bind_io m f = (\<lambda>s. case m s of (Inl e, s') \<Rightarrow> (Inl e, s') | (Inr a, s') \<Rightarrow> f a s')"

subsection \<open>\<open>SocketWrapper\<close> methods\<close>

definition address :: "sock \<Rightarrow> (str \<times> nat) option" where
  "address s = peername s"

text \<open>
  \<open>StreamReader.read(n)\<close>: \<open>b''\<close> for \<open>n = 0\<close> and at end of stream, otherwise between 1
  and \<open>n\<close> of the bytes at the head of the stream.
\<close>

definition read :: "nat \<Rightarrow> (sock, byte list) io" where
  "read n s =
     (if n = 0 then (Inr [], s)
      else if inbound s = [] then
        (case fin s of Eof \<Rightarrow> (Inr [], s) | Fails e \<Rightarrow> (Inl e, s))
      else
        let k = (case sizes s of [] \<Rightarrow> n | k # _ \<Rightarrow> max 1 (min k n));
            data = take k (inbound s)
        in (Inr data,
            s\<lparr>inbound := drop k (inbound s), sizes := tl (sizes s),
              taken := taken s @ [data]\<rparr>))"

text \<open>
  \<open>StreamReader.readexactly(n)\<close>: the next \<open>n\<close> bytes. When the stream ends before them
  it raises \<open>IncompleteReadError\<close>, and the bytes that were there leave the stream with the
  exception (its \<open>partial\<close>); when the stream ends with an exception, that is raised.
\<close>

definition readexactly :: "nat \<Rightarrow> (sock, byte list) io" where
  "readexactly n s =
     (if n \<le> length (inbound s)
      then (Inr (take n (inbound s)), s\<lparr>inbound := drop n (inbound s)\<rparr>)
      else (case fin s of
              Eof \<Rightarrow> (Inl IncompleteReadError, s\<lparr>inbound := []\<rparr>)
            | Fails e \<Rightarrow> (Inl e, s)))"

definition readbyte :: "(sock, nat) io" where
  "readbyte = bind_io (readexactly 1) (\<lambda>data. return_io (unat (data ! 0)))"

definition readshort :: "(sock, int) io" where
  "readshort =
     bind_io (readexactly 2) (\<lambda>data. return_io (push_bit 8 (uint (data ! 0)) OR uint (data ! 1)))"

definition readstr :: "nat \<Rightarrow> (sock, host) io" where
  "readstr n =
     bind_io (readexactly n) (\<lambda>data.
       case utf8_decode data of
         None \<Rightarrow> raise_io UnicodeDecodeError
       | Some text \<Rightarrow> return_io (Name text))"

definition readipv4 :: "(sock, host) io" where
  "readipv4 = bind_io (readexactly 4) (\<lambda>data. return_io (Inet_ntop AF_INET data))"

definition readipv6 :: "(sock, host) io" where
  "readipv6 = bind_io (readexactly 16) (\<lambda>data. return_io (Inet_ntop AF_INET6 data))"

text \<open>\<open>write\<close>: \<open>writer.write(data)\<close> hands the bytes over; \<open>drain()\<close> may then raise.\<close>

definition write_bytes :: "byte list \<Rightarrow> (sock, unit) io" where
  "write_bytes data s =
     (let s' = s\<lparr>outbound := outbound s @ [data]\<rparr>
      in case wfaults s' of
           [] \<Rightarrow> (Inr (), s')
         | None # fs \<Rightarrow> (Inr (), s'\<lparr>wfaults := fs\<rparr>)
         | Some e # fs \<Rightarrow> (Inl e, s'\<lparr>wfaults := fs\<rparr>))"

text \<open>
  \<open>writer.wait_closed()\<close> is awaited with no deadline, unlike the reads and the drain:
  \<open>None\<close> is the await that never ends, \<open>Some\<close> the one that returns or raises.
\<close>

definition wait_closed :: "sock \<Rightarrow> (exn + unit) option \<times> sock" where
  "wait_closed s =
     (case wc_end s of
        Wait_returns \<Rightarrow> (Some (Inr ()), s)
      | Wait_raises e \<Rightarrow> (Some (Inl e), s)
      | Wait_pending \<Rightarrow> (None, s))"

text \<open>
  \<open>close\<close>: \<open>writer.close()\<close>, then \<open>wait_closed()\<close> with every exception swallowed. It
  returns (\<open>Some ()\<close>) or, with \<open>wait_closed\<close>, never does (\<open>None\<close>): the caller is then
  never resumed. \<open>__aexit__\<close> is this call.
\<close>

definition close :: "sock \<Rightarrow> unit option \<times> sock" where
  "close s =
     (case wait_closed (s\<lparr>closed := True\<rparr>) of
        (None, s') \<Rightarrow> (None, s')
      | (Some (Inl e), s') \<Rightarrow> (Some (), s')
      | (Some (Inr u), s') \<Rightarrow> (Some (), s'))"

subsection \<open>\<open>SocksServer.forward\<close> and the two relay directions\<close>

definition BUF_SIZE :: nat where
  "BUF_SIZE = 65536"

text \<open>
  One turn of the \<open>while True\<close> loop of \<open>forward\<close>: \<open>Inr True\<close> goes round again,
  \<open>Inr False\<close> is the \<open>break\<close>. The result carries the source, then the destination.
\<close>

definition forward_body :: "sock \<Rightarrow> sock \<Rightarrow> (exn + bool) \<times> sock \<times> sock" where
  "forward_body src dst =
     (case read BUF_SIZE src of
        (Inl e, src') \<Rightarrow> (Inl e, src', dst)
      | (Inr data, src') \<Rightarrow>
          if data = [] then (Inr False, src', dst)
          else (case write_bytes data dst of
                  (Inl e, dst') \<Rightarrow> (Inl e, src', dst')
                | (Inr u, dst') \<Rightarrow> (Inr True, src', dst')))"

lemma forward_body_shrinks:
  assumes "forward_body src dst = (Inr True, src', dst')"
  shows "length (inbound src') < length (inbound src)"
  using assms
  by (auto simp: forward_body_def read_def write_bytes_def Let_def BUF_SIZE_def
      split: if_splits stream_end.splits list.splits option.splits)

function forward :: "sock \<Rightarrow> sock \<Rightarrow> (exn + unit) \<times> sock \<times> sock" where
  "forward src dst =
     (case forward_body src dst of
        (Inl e, src', dst') \<Rightarrow> (Inl e, src', dst')
      | (Inr again, src', dst') \<Rightarrow>
          if again then forward src' dst' else (Inr (), src', dst'))"
  by pat_completeness auto
termination
  by (relation "measure (\<lambda>(src, dst). length (inbound src))")
    (auto dest: forward_body_shrinks [OF sym])

declare forward.simps [simp del]

datatype dir = Upstream | Downstream

text \<open>
  \<open>asyncio.gather(self.forward(client, remote), self.forward(remote, client))\<close>. The two
  loops take turns at their awaits; \<open>sched\<close> names the loop that makes each next turn, and
  when it is used up the loops that are still running finish one after the other. Both
  loops returning ends the gather normally; the first exception ends it with that
  exception. The flags say which loop has returned.

  \<open>gather\<close> does not cancel the other loop when one raises: until the sockets are closed
  it can still take turns. \<open>linger sched d\<close> lets the loop \<open>d\<close> take the turns that the
  rest of the schedule gives it; what becomes of it then is lost with its task.
\<close>

fun linger :: "dir list \<Rightarrow> dir \<Rightarrow> sock \<Rightarrow> sock \<Rightarrow> sock \<times> sock" where
  "linger [] d client remote = (client, remote)"
| "linger (x # sched) d client remote =
     (if x \<noteq> d then linger sched d client remote
      else if d = Upstream then
        (case forward_body client remote of
           (Inl e, client', remote') \<Rightarrow> (client', remote')
         | (Inr again, client', remote') \<Rightarrow>
             if again then linger sched d client' remote' else (client', remote'))
      else
        (case forward_body remote client of
           (Inl e, remote', client') \<Rightarrow> (client', remote')
         | (Inr again, remote', client') \<Rightarrow>
             if again then linger sched d client' remote' else (client', remote')))"

fun gather :: "dir list \<Rightarrow> bool \<Rightarrow> bool \<Rightarrow> sock \<Rightarrow> sock \<Rightarrow> (exn + unit) \<times> sock \<times> sock" where
  "gather [] up_done down_done client remote =
     (case (if up_done then (Inr (), client, remote) else forward client remote) of
        (Inl e, client', remote') \<Rightarrow> (Inl e, client', remote')
      | (Inr u, client', remote') \<Rightarrow>
          if down_done then (Inr (), client', remote')
          else (case forward remote' client' of
                  (res, remote'', client'') \<Rightarrow> (res, client'', remote'')))"
| "gather (Upstream # sched) up_done down_done client remote =
     (if up_done then gather sched up_done down_done client remote
      else (case forward_body client remote of
              (Inl e, client', remote') \<Rightarrow>
                (Inl e, linger (if down_done then [] else sched) Downstream client' remote')
            | (Inr again, client', remote') \<Rightarrow>
                if \<not> again \<and> down_done then (Inr (), client', remote')
                else gather sched (\<not> again) down_done client' remote'))"
| "gather (Downstream # sched) up_done down_done client remote =
     (if down_done then gather sched up_done down_done client remote
      else (case forward_body remote client of
              (Inl e, remote', client') \<Rightarrow>
                (Inl e, linger (if up_done then [] else sched) Upstream client' remote')
            | (Inr again, remote', client') \<Rightarrow>
                if \<not> again \<and> up_done then (Inr (), client', remote')
                else gather sched up_done (\<not> again) client' remote'))"

subsection \<open>The session\<close>

text \<open>What the logger is given, in order.\<close>

datatype log_entry =
    New_client "str \<times> nat"
  | Unexpected_exception exn
  | Connect_failed host int exn
  | Connected host int

text \<open>
  \<open>upstream\<close> is the socket to the destination once there is one; \<open>dials\<close> lists the
  calls of \<open>asyncio.open_connection\<close> with host, port and the deadline given to
  \<open>wait_for\<close>. \<open>stuck\<close> says that the coroutine is suspended in a \<open>close\<close> that never
  returns: nothing after that await runs, and the result beside such a state is what was
  on its way out of the scope, which no caller receives.
\<close>

record session =
  client :: sock
  upstream :: "sock option"
  dials :: "(host \<times> int \<times> nat) list"
  logs :: "log_entry list"
  stuck :: bool

text \<open>How \<open>open_connection\<close> under its deadline ends for a host and port.\<close>

type_synonym net = "host \<Rightarrow> int \<Rightarrow> exn + conn"

definition on_client :: "(sock, 'a) io \<Rightarrow> (session, 'a) io" where
  "on_client m s = (case m (client s) of (r, c') \<Rightarrow> (r, s\<lparr>client := c'\<rparr>))"

definition VERSION :: byte where "VERSION = 0x05"
definition CMD_CONNECT :: byte where "CMD_CONNECT = 0x01"
definition ATYP_IPV4 :: byte where "ATYP_IPV4 = 0x01"
definition ATYP_DOMAIN :: byte where "ATYP_DOMAIN = 0x03"
definition ATYP_IPV6 :: byte where "ATYP_IPV6 = 0x04"

definition method_reply :: "byte list" where
  "method_reply = [0x05, 0x00]"

definition success_reply :: "byte list" where
  "success_reply = [0x05, 0x00, 0x00, 0x01, 0x00, 0x00, 0x00, 0x00, 0x00, 0x00]"

text \<open>
  Lines 73 to 88 of \<open>handle_connection_core\<close>, reached with the host resolved: read the
  port, dial, and on success reply, relay, and leave the \<open>async with\<close> of the upstream
  socket, whose \<open>__aexit__\<close> awaits \<open>remote.close()\<close> on every way out. The session is
  stuck there when that \<open>close\<close> never returns.
\<close>

definition connect_and_relay :: "net \<Rightarrow> dir list \<Rightarrow> host \<Rightarrow> (session, unit) io" where
  "connect_and_relay net sched host =
     bind_io (on_client readshort) (\<lambda>port s.
       let s1 = s\<lparr>dials := dials s @ [(host, port, 10)]\<rparr>
       in case net host port of
            Inl e \<Rightarrow> (Inr (), s1\<lparr>logs := logs s1 @ [Connect_failed host port e]\<rparr>)
          | Inr c \<Rightarrow>
              let remote = SocketWrapper c;
                  s2 = s1\<lparr>logs := logs s1 @ [Connected host port]\<rparr>
              in case write_bytes success_reply (client s2) of
                   (Inl e, client') \<Rightarrow>
                     (case close remote of
                        (k, remote') \<Rightarrow>
                          (Inl e, s2\<lparr>client := client', upstream := Some remote',
                                    stuck := (k = None)\<rparr>))
                 | (Inr u, client') \<Rightarrow>
                     (case gather sched False False client' remote of
                        (res, client'', remote') \<Rightarrow>
                          (case close remote' of
                             (k, remote'') \<Rightarrow>
                               (res, s2\<lparr>client := client'', upstream := Some remote'',
                                       stuck := (k = None)\<rparr>))))"

text \<open>
  Lines 58 to 72 of \<open>handle_connection_core\<close>: the request header and the address. The
  reserved byte is unpacked and dropped.
\<close>

definition request_stage :: "net \<Rightarrow> dir list \<Rightarrow> (session, unit) io" where
  "request_stage net sched =
     bind_io (on_client (readexactly 4)) (\<lambda>request.
       case request of
         [ver, cmd, rsv, atyp] \<Rightarrow>
           if ver \<noteq> VERSION \<or> cmd \<noteq> CMD_CONNECT then return_io ()
           else if atyp = ATYP_IPV4 then
             bind_io (on_client readipv4) (connect_and_relay net sched)
           else if atyp = ATYP_DOMAIN then
             bind_io (bind_io (on_client readbyte) (\<lambda>n. on_client (readstr n)))
               (connect_and_relay net sched)
           else if atyp = ATYP_IPV6 then
             bind_io (on_client readipv6) (connect_and_relay net sched)
           else return_io ()
       | _ \<Rightarrow> raise_io ValueError)"

text \<open>
  \<open>handle_connection_core\<close>: lines 40 to 51, the method negotiation and its fixed reply,
  then the request. Unpacking a \<open>bytes\<close> of another length than the targets raises
  \<open>ValueError\<close>.
\<close>

definition handle_connection_core :: "net \<Rightarrow> dir list \<Rightarrow> (session, unit) io" where
  "handle_connection_core net sched =
     bind_io (on_client (readexactly 2)) (\<lambda>hello.
       case hello of
         [ver, nmethods] \<Rightarrow>
           if ver \<noteq> VERSION \<or> nmethods < 1 then return_io ()
           else
             bind_io (on_client (readexactly (unat nmethods))) (\<lambda>methods.
             bind_io (on_client (write_bytes method_reply)) (\<lambda>u.
             request_stage net sched))
       | _ \<Rightarrow> raise_io ValueError)"

text \<open>
  \<open>handle_connection\<close>: the \<open>async with\<close> of the client socket around everything. The
  peer address is subscripted outside the \<open>try\<close>, so a transport without one raises
  \<open>TypeError\<close> past it; an exception of \<open>handle_connection_core\<close> is logged and
  swallowed. \<open>__aexit__\<close> of the client socket then awaits \<open>client.close()\<close> on each way
  out. When \<open>handle_connection_core\<close> is stuck, it never hands control back: neither the
  \<open>except\<close> clause nor \<open>client.close()\<close> runs.
\<close>

definition handle_connection :: "net \<Rightarrow> dir list \<Rightarrow> conn \<Rightarrow> (exn + unit) \<times> session" where
  "handle_connection net sched c =
     (let s0 = \<lparr>client = SocketWrapper c, upstream = None, dials = [], logs = [],
                stuck = False\<rparr>
      in case address (client s0) of
           None \<Rightarrow>
             (case close (client s0) of
                (k, client') \<Rightarrow> (Inl TypeError, s0\<lparr>client := client', stuck := (k = None)\<rparr>))
         | Some a \<Rightarrow>
             (case handle_connection_core net sched (s0\<lparr>logs := [New_client a]\<rparr>) of
                (res, s1) \<Rightarrow>
                  if stuck s1 then (res, s1)
                  else
                    let s2 = (case res of
                                Inl e \<Rightarrow> s1\<lparr>logs := logs s1 @ [Unexpected_exception e]\<rparr>
                              | Inr u \<Rightarrow> s1)
                    in case close (client s2) of
                         (k, client') \<Rightarrow>
                           (Inr (), s2\<lparr>client := client', stuck := (k = None)\<rparr>)))"

subsection \<open>Relations between two states of a run\<close>

text \<open>
  \<open>traffic s s' ins outs\<close>: between \<open>s\<close> and \<open>s'\<close> the chunks \<open>ins\<close> were read from the
  head of the stream and the chunks \<open>outs\<close> were written; nothing else of the history
  moved. \<open>read_only c c'\<close>: at most the stream position differs.
\<close>

definition traffic :: "sock \<Rightarrow> sock \<Rightarrow> byte list list \<Rightarrow> byte list list \<Rightarrow> bool" where
  "traffic s s' ins outs \<longleftrightarrow>
     taken s' = taken s @ ins \<and> inbound s = concat ins @ inbound s' \<and>
     outbound s' = outbound s @ outs \<and> closed s' = closed s \<and> fin s' = fin s \<and>
     wc_end s' = wc_end s \<and> peername s' = peername s"

definition read_only :: "sock \<Rightarrow> sock \<Rightarrow> bool" where
  "read_only c c' \<longleftrightarrow>
     taken c' = taken c \<and> outbound c' = outbound c \<and> closed c' = closed c \<and>
     wfaults c' = wfaults c \<and> fin c' = fin c \<and> wc_end c' = wc_end c \<and>
     peername c' = peername c \<and> sizes c' = sizes c"

text \<open>
  How a run of the session code can have gone from \<open>s\<close> to \<open>s'\<close>.
  \<^item> \<open>quiet s s' w\<close>: no dial and no \<open>close\<close>; the client was written the chunks \<open>w\<close>.
  \<^item> \<open>refused_end net host s s'\<close>: one dial of \<open>host\<close> under the deadline of 10, which
    failed and was logged.
  \<^item> \<open>relayed_end net host s s' down\<close>: one dial of \<open>host\<close>, which succeeded;
    \<open>writer.close()\<close> was called on the upstream socket, and the session is stuck exactly
    when the \<open>wait_closed\<close> after it stays pending; \<open>down\<close> are the chunks read from
    upstream, and the chunks written to it are those read from the client.
\<close>

definition quiet_end :: "session \<Rightarrow> session \<Rightarrow> bool" where
  "quiet_end s s' \<longleftrightarrow>
     dials s' = dials s \<and> upstream s' = upstream s \<and> logs s' = logs s \<and>
     stuck s' = stuck s \<and>
     taken (client s') = taken (client s) \<and> closed (client s') = closed (client s)"

definition refused_end :: "net \<Rightarrow> host \<Rightarrow> session \<Rightarrow> session \<Rightarrow> bool" where
  "refused_end net host s s' \<longleftrightarrow>
     (\<exists>port e.
        dials s' = dials s @ [(host, port, 10)] \<and> net host port = Inl e \<and>
        logs s' = logs s @ [Connect_failed host port e]) \<and>
     upstream s' = upstream s \<and> stuck s' = stuck s \<and>
     taken (client s') = taken (client s) \<and> closed (client s') = closed (client s)"

definition relayed_end :: "net \<Rightarrow> host \<Rightarrow> session \<Rightarrow> session \<Rightarrow> byte list list \<Rightarrow> bool" where
  "relayed_end net host s s' down \<longleftrightarrow>
     (\<exists>port c r'.
        dials s' = dials s @ [(host, port, 10)] \<and> net host port = Inr c \<and>
        logs s' = logs s @ [Connected host port] \<and>
        upstream s' = Some r' \<and> closed r' \<and> wc_end r' = wc_end c \<and>
        stuck s' = (wc_end c = Wait_pending) \<and> taken r' = down \<and>
        inbound c = concat down @ inbound r' \<and>
        taken (client s') = taken (client s) @ outbound r') \<and>
     closed (client s') = closed (client s)"

definition quiet :: "session \<Rightarrow> session \<Rightarrow> byte list list \<Rightarrow> bool" where
  "quiet s s' w \<longleftrightarrow> quiet_end s s' \<and> outbound (client s') = outbound (client s) @ w"

subsection \<open>A well-formed negotiation, and example sessions\<close>


text \<open>
  Example connections. \<open>example_client\<close> sends the negotiation \<open>05 01 00\<close>, the request
  \<open>05 01 00 01 7f 00 00 01 00 50\<close> (CONNECT 127.0.0.1:80) and three bytes of payload, then
  closes; \<open>example_remote\<close> answers two bytes and falls silent. \<open>bind_request\<close> asks for
  BIND instead of CONNECT, \<open>socks4_request\<close> opens with version 4.
\<close>

definition example_client :: conn where
  "example_client =
     \<lparr>inbound = [0x05, 0x01, 0x00,
                 0x05, 0x01, 0x00, 0x01, 0x7f, 0x00, 0x00, 0x01, 0x00, 0x50,
                 0x47, 0x45, 0x54],
      fin = Eof, sizes = [2], wfaults = [], wc_end = Wait_returns,
      peername = Some ([0x31, 0x30, 0x2e, 0x30, 0x2e, 0x30, 0x2e, 0x37], 50000)\<rparr>"

definition example_remote :: conn where
  "example_remote =
     \<lparr>inbound = [0x48, 0x49], fin = Fails TimeoutError, sizes = [1], wfaults = [],
      wc_end = Wait_raises BrokenPipeError, peername = None\<rparr>"

definition bind_request :: conn where
  "bind_request = example_client\<lparr>inbound :=
     [0x05, 0x01, 0x00, 0x05, 0x02, 0x00, 0x01, 0x7f, 0x00, 0x00, 0x01, 0x00, 0x50]\<rparr>"

definition socks4_request :: conn where
  "socks4_request = example_client\<lparr>inbound :=
     [0x04, 0x01, 0x00, 0x50, 0x7f, 0x00, 0x00, 0x01, 0x00]\<rparr>"

definition accepting :: net where
  "accepting = (\<lambda>host port. Inr example_remote)"

text \<open>
  \<open>stalled_remote\<close> is a destination that accepts the connection and then neither reads
  nor sends: a first drain returns, the next is cut off by the deadline, and after
  \<open>writer.close()\<close> the bytes still held for it keep \<open>wait_closed\<close> pending.
\<close>

definition stalled_remote :: conn where
  "stalled_remote =
     \<lparr>inbound = [], fin = Fails TimeoutError, sizes = [],
      wfaults = [None, Some TimeoutError], wc_end = Wait_pending, peername = None\<rparr>"

definition stalling :: net where
  "stalling = (\<lambda>host port. Inr stalled_remote)"

definition refusing :: net where
  "refusing = (\<lambda>host port. Inl ConnectionRefusedError)"

definition accepted :: "conn \<Rightarrow> session" where
  "accepted c =
     \<lparr>client = SocketWrapper c, upstream = None, dials = [], logs = [], stuck = False\<rparr>"

text \<open>
  More requests after the same negotiation: an address type of 2; the domain name
  \<open>a.b\<close> with port 443 and one byte of payload; a one-byte domain name that is not
  UTF-8; and a stream that holds two port bytes only.
\<close>

definition unknown_atyp_request :: conn where
  "unknown_atyp_request = example_client\<lparr>inbound :=
     [0x05, 0x01, 0x00, 0x05, 0x01, 0x00, 0x02, 0x7f, 0x00, 0x00, 0x01, 0x00, 0x50]\<rparr>"

definition domain_request :: conn where
  "domain_request = example_client\<lparr>inbound :=
     [0x05, 0x01, 0x00, 0x05, 0x01, 0x00, 0x03, 0x03, 0x61, 0x2e, 0x62, 0x01, 0xbb, 0x47]\<rparr>"

definition undecodable_domain_request :: conn where
  "undecodable_domain_request = example_client\<lparr>inbound :=
     [0x05, 0x01, 0x00, 0x05, 0x01, 0x00, 0x03, 0x01, 0xff, 0x00, 0x50]\<rparr>"

definition port_only :: conn where
  "port_only = example_client\<lparr>inbound := [0x00, 0x50]\<rparr>"

subsection \<open>What a session shows, and what the handshake leaves\<close>

text \<open>
  \<open>behaviour\<close>: the result of a run and what it did: the chunks written to the client
  and read from it by the relay, whether the client socket is closed, the upstream socket,
  the dials, the log, and whether the run is stuck. The bytes that were never read are no
  part of it.

  \<open>left_over s s'\<close>: of the client's stream as it stood at \<open>s\<close>, the part that no
  exact-length read took: the bytes later relayed upstream, then the bytes never read.
\<close>

definition behaviour ::
  "(exn + unit) \<times> session \<Rightarrow>
   (exn + unit) \<times> byte list list \<times> byte list list \<times> bool \<times> sock option \<times>
   (host \<times> int \<times> nat) list \<times> log_entry list \<times> bool" where
  "behaviour x =
     (fst x, outbound (client (snd x)), taken (client (snd x)), closed (client (snd x)),
      upstream (snd x), dials (snd x), logs (snd x), stuck (snd x))"

definition left_over :: "session \<Rightarrow> session \<Rightarrow> byte list" where
  "left_over s s' =
     concat (drop (length (taken (client s))) (taken (client s'))) @ inbound (client s')"

section \<open>Properties\<close>

subsection \<open>Frames\<close>

lemma traffic_refl: "traffic s s [] []"
  by (simp add: traffic_def)

lemma traffic_trans:
  "traffic a b i1 o1 \<Longrightarrow> traffic b c i2 o2 \<Longrightarrow> traffic a c (i1 @ i2) (o1 @ o2)"
  by (simp add: traffic_def)

lemma forward_body_traffic:
  assumes "forward_body src dst = (res, src', dst')"
  shows "\<exists>ch. traffic src src' ch [] \<and> traffic dst dst' [] ch"
  using assms
  by (auto simp: forward_body_def read_def write_bytes_def Let_def traffic_def
      split: if_splits stream_end.splits list.splits option.splits)

lemma forward_traffic:
  "forward src dst = (res, src', dst') \<Longrightarrow> \<exists>ch. traffic src src' ch [] \<and> traffic dst dst' [] ch"
proof (induction src dst arbitrary: res src' dst' rule: forward.induct)
  case (1 src dst)
  obtain r a b where fb: "forward_body src dst = (r, a, b)"
    by (cases "forward_body src dst") auto
  from forward_body_traffic [OF fb] obtain ch1
    where t1: "traffic src a ch1 []" "traffic dst b [] ch1" by blast
  show ?case
  proof (cases r)
    case (Inl e)
    with fb "1.prems" have "src' = a" "dst' = b" by (simp_all add: forward.simps [of src dst])
    with t1 show ?thesis by blast
  next
    case (Inr again)
    show ?thesis
    proof (cases again)
      case False
      with Inr fb "1.prems" have "src' = a" "dst' = b" by (simp_all add: forward.simps [of src dst])
      with t1 show ?thesis by blast
    next
      case True
      with Inr fb "1.prems" have fwd: "forward a b = (res, src', dst')"
        by (simp add: forward.simps [of src dst])
      have "\<exists>ch. traffic a src' ch [] \<and> traffic b dst' [] ch"
        using "1.IH" fb fwd True Inr by fastforce
      then obtain ch2
        where "traffic a src' ch2 []" "traffic b dst' [] ch2" by auto
      with t1 have "traffic src src' (ch1 @ ch2) ([] @ [])" "traffic dst dst' ([] @ []) (ch1 @ ch2)"
        by (blast intro: traffic_trans)+
      then show ?thesis by auto
    qed
  qed
qed

lemma linger_traffic:
  "linger sched d c r = (c', r') \<Longrightarrow>
   \<exists>up down. traffic c c' up down \<and> traffic r r' down up"
proof (induction sched arbitrary: c r)
  case Nil
  then show ?case by (auto intro: traffic_refl)
next
  case (Cons x sched)
  show ?case
  proof (cases "x = d")
    case False
    with Cons show ?thesis by simp
  next
    case True
    show ?thesis
    proof (cases d)
      case Upstream
      obtain r1 c1 r1' where fb: "forward_body c r = (r1, c1, r1')"
        by (cases "forward_body c r") auto
      from forward_body_traffic [OF fb] obtain ch
        where t1: "traffic c c1 ch []" "traffic r r1' [] ch" by blast
      show ?thesis
      proof (cases "r1 = Inr True")
        case again: True
        with Cons.prems True Upstream fb have "linger sched d c1 r1' = (c', r')" by simp
        from Cons.IH [OF this] obtain up down
          where "traffic c1 c' up down" "traffic r1' r' down up" by blast
        with t1 have "traffic c c' (ch @ up) ([] @ down)" "traffic r r' ([] @ down) (ch @ up)"
          by (blast intro: traffic_trans)+
        then show ?thesis by auto
      next
        case False
        with Cons.prems True Upstream fb have "c' = c1" "r' = r1'"
          by (auto split: sum.splits if_splits)
        with t1 show ?thesis by blast
      qed
    next
      case Downstream
      obtain r1 r1' c1 where fb: "forward_body r c = (r1, r1', c1)"
        by (cases "forward_body r c") auto
      from forward_body_traffic [OF fb] obtain ch
        where t1: "traffic r r1' ch []" "traffic c c1 [] ch" by blast
      show ?thesis
      proof (cases "r1 = Inr True")
        case again: True
        with Cons.prems True Downstream fb have "linger sched d c1 r1' = (c', r')" by simp
        from Cons.IH [OF this] obtain up down
          where "traffic c1 c' up down" "traffic r1' r' down up" by blast
        with t1 have "traffic c c' ([] @ up) (ch @ down)" "traffic r r' (ch @ down) ([] @ up)"
          by (blast intro: traffic_trans)+
        then show ?thesis by auto
      next
        case False
        with Cons.prems True Downstream fb have "c' = c1" "r' = r1'"
          by (auto split: sum.splits if_splits)
        with t1 show ?thesis by blast
      qed
    qed
  qed
qed

lemma gather_traffic:
  "gather sched up_done down_done c r = (res, c', r') \<Longrightarrow>
   \<exists>up down. traffic c c' up down \<and> traffic r r' down up"
proof (induction sched arbitrary: up_done down_done c r)
  case Nil
  obtain r1 c1 r1' where f1: "(if up_done then (Inr (), c, r) else forward c r) = (r1, c1, r1')"
    by (cases "if up_done then (Inr (), c, r) else forward c r") auto
  have "\<exists>ch. traffic c c1 ch [] \<and> traffic r r1' [] ch"
  proof (cases up_done)
    case True with f1 show ?thesis by (auto intro: traffic_refl)
  next
    case False with f1 show ?thesis by (auto dest: forward_traffic)
  qed
  then obtain up where t1: "traffic c c1 up []" "traffic r r1' [] up" by blast
  show ?case
  proof (cases "(\<exists>e. r1 = Inl e) \<or> down_done")
    case True
    with Nil f1 have "c' = c1" "r' = r1'" by (auto split: sum.splits)
    with t1 show ?thesis by blast
  next
    case False
    then obtain res2 r2 c2 where f2: "forward r1' c1 = (res2, r2, c2)"
      by (cases "forward r1' c1") auto
    with False Nil f1 have "c' = c2" "r' = r2" by (auto split: sum.splits)
    moreover from forward_traffic [OF f2] obtain down
      where "traffic r1' r2 down []" "traffic c1 c2 [] down" by blast
    with t1 have "traffic c c2 (up @ []) ([] @ down)" "traffic r r2 ([] @ down) (up @ [])"
      by (blast intro: traffic_trans)+
    ultimately show ?thesis by auto
  qed
next
  case (Cons d sched)
  show ?case
  proof (cases d)
    case Upstream
    show ?thesis
    proof (cases up_done)
      case True
      with Cons Upstream show ?thesis by simp
    next
      case False
      obtain r1 c1 r1' where fb: "forward_body c r = (r1, c1, r1')"
        by (cases "forward_body c r") auto
      from forward_body_traffic [OF fb] obtain ch
        where t1: "traffic c c1 ch []" "traffic r r1' [] ch" by blast
      show ?thesis
      proof (cases "\<exists>again. r1 = Inr again \<and> \<not> (\<not> again \<and> down_done)")
        case True
        then obtain again where "r1 = Inr again" "\<not> (\<not> again \<and> down_done)" by blast
        with Cons.prems Upstream False fb
        have "gather sched (\<not> again) down_done c1 r1' = (res, c', r')" by auto
        from Cons.IH [OF this] obtain up down
          where "traffic c1 c' up down" "traffic r1' r' down up" by blast
        with t1 have "traffic c c' (ch @ up) ([] @ down)" "traffic r r' ([] @ down) (ch @ up)"
          by (blast intro: traffic_trans)+
        then show ?thesis by auto
      next
        case f: False
        show ?thesis
        proof (cases r1)
          case (Inl e)
          with Cons.prems Upstream False fb
          have "linger (if down_done then [] else sched) Downstream c1 r1' = (c', r')"
            by (auto split: prod.splits)
          from linger_traffic [OF this] obtain up down
            where "traffic c1 c' up down" "traffic r1' r' down up" by blast
          with t1 have "traffic c c' (ch @ up) ([] @ down)" "traffic r r' ([] @ down) (ch @ up)"
            by (blast intro: traffic_trans)+
          then show ?thesis by auto
        next
          case (Inr again)
          with f Cons.prems Upstream False fb have "c' = c1" "r' = r1'"
            by (auto split: if_splits)
          with t1 show ?thesis by blast
        qed
      qed
    qed
  next
    case Downstream
    show ?thesis
    proof (cases down_done)
      case True
      with Cons Downstream show ?thesis by simp
    next
      case False
      obtain r1 r1' c1 where fb: "forward_body r c = (r1, r1', c1)"
        by (cases "forward_body r c") auto
      from forward_body_traffic [OF fb] obtain ch
        where t1: "traffic r r1' ch []" "traffic c c1 [] ch" by blast
      show ?thesis
      proof (cases "\<exists>again. r1 = Inr again \<and> \<not> (\<not> again \<and> up_done)")
        case True
        then obtain again where "r1 = Inr again" "\<not> (\<not> again \<and> up_done)" by blast
        with Cons.prems Downstream False fb
        have "gather sched up_done (\<not> again) c1 r1' = (res, c', r')" by auto
        from Cons.IH [OF this] obtain up down
          where "traffic c1 c' up down" "traffic r1' r' down up" by blast
        with t1 have "traffic c c' ([] @ up) (ch @ down)" "traffic r r' (ch @ down) ([] @ up)"
          by (blast intro: traffic_trans)+
        then show ?thesis by auto
      next
        case f: False
        show ?thesis
        proof (cases r1)
          case (Inl e)
          with Cons.prems Downstream False fb
          have "linger (if up_done then [] else sched) Upstream c1 r1' = (c', r')"
            by (auto split: prod.splits)
          from linger_traffic [OF this] obtain up down
            where "traffic c1 c' up down" "traffic r1' r' down up" by blast
          with t1 have "traffic c c' ([] @ up) (ch @ down)" "traffic r r' (ch @ down) ([] @ up)"
            by (blast intro: traffic_trans)+
          then show ?thesis by auto
        next
          case (Inr again)
          with f Cons.prems Downstream False fb have "c' = c1" "r' = r1'"
            by (auto split: if_splits)
          with t1 show ?thesis by blast
        qed
      qed
    qed
  qed
qed

lemma forward_body_break:
  assumes "forward_body src dst = (Inr False, src', dst')"
  shows "inbound src' = [] \<and> fin src = Eof \<and> inbound src = []"
  using assms
  by (auto simp: forward_body_def read_def write_bytes_def Let_def BUF_SIZE_def
      split: if_splits stream_end.splits list.splits option.splits)

lemma forward_returns:
  "forward src dst = (Inr (), src', dst') \<Longrightarrow> inbound src' = [] \<and> fin src = Eof"
proof (induction src dst arbitrary: src' dst' rule: forward.induct)
  case (1 src dst)
  obtain r a b where fb: "forward_body src dst = (r, a, b)"
    by (cases "forward_body src dst") auto
  show ?case
  proof (cases r)
    case (Inl e)
    with fb "1.prems" show ?thesis by (simp add: forward.simps [of src dst])
  next
    case (Inr again)
    show ?thesis
    proof (cases again)
      case False
      with Inr fb "1.prems" have "src' = a" by (simp add: forward.simps [of src dst])
      with forward_body_break [of src dst a b] fb Inr False show ?thesis by simp
    next
      case True
      with Inr fb "1.prems" have fwd: "forward a b = (Inr (), src', dst')"
        by (simp add: forward.simps [of src dst])
      have "inbound src' = [] \<and> fin a = Eof"
        using "1.IH" fb fwd True Inr by fastforce
      moreover from forward_body_traffic [OF fb] have "fin a = fin src"
        by (auto simp: traffic_def)
      ultimately show ?thesis by simp
    qed
  qed
qed

lemma traffic_no_reads: "traffic s s' [] outs \<Longrightarrow> inbound s' = inbound s"
  by (simp add: traffic_def)

lemma gather_returns:
  assumes "up_done \<longrightarrow> inbound c = []" and "down_done \<longrightarrow> inbound r = []"
    and "gather sched up_done down_done c r = (Inr (), c', r')"
  shows "inbound c' = [] \<and> inbound r' = []"
  using assms
proof (induction sched arbitrary: up_done down_done c r)
  case Nil
  obtain r1 c1 r1' where f1: "(if up_done then (Inr (), c, r) else forward c r) = (r1, c1, r1')"
    by (cases "if up_done then (Inr (), c, r) else forward c r") auto
  with Nil.prems(3) have r1: "r1 = Inr ()" by (auto split: sum.splits)
  have c1: "inbound c1 = []"
  proof (cases up_done)
    case True with f1 Nil.prems(1) show ?thesis by auto
  next
    case False with f1 r1 show ?thesis by (auto dest: forward_returns)
  qed
  have r1': "inbound r1' = inbound r"
  proof (cases up_done)
    case True with f1 show ?thesis by auto
  next
    case False
    with f1 obtain ch where "traffic r r1' [] ch" by (auto dest: forward_traffic)
    then show ?thesis by (rule traffic_no_reads)
  qed
  show ?case
  proof (cases down_done)
    case True
    with Nil.prems f1 r1 c1 r1' show ?thesis by auto
  next
    case False
    obtain res2 r2 c2 where f2: "forward r1' c1 = (res2, r2, c2)"
      by (cases "forward r1' c1") auto
    with False Nil.prems(3) f1 r1 have eq: "res2 = Inr ()" "c' = c2" "r' = r2" by auto
    from forward_traffic [OF f2] obtain ch where "traffic c1 c2 [] ch" by blast
    then have "inbound c2 = inbound c1" by (rule traffic_no_reads)
    with forward_returns [of r1' c1 r2 c2] f2 eq c1 show ?thesis by simp
  qed
next
  case (Cons d sched)
  show ?case
  proof (cases d)
    case Upstream
    show ?thesis
    proof (cases up_done)
      case True
      with Cons.prems(3) Upstream have "gather sched up_done down_done c r = (Inr (), c', r')"
        by simp
      from Cons.IH [OF Cons.prems(1,2) this] show ?thesis .
    next
      case False
      obtain r1 c1 r1' where fb: "forward_body c r = (r1, c1, r1')"
        by (cases "forward_body c r") auto
      from forward_body_traffic [OF fb] obtain ch where "traffic r r1' [] ch" by blast
      then have keep: "inbound r1' = inbound r" by (rule traffic_no_reads)
      from Cons.prems(3) Upstream False fb obtain again where r1: "r1 = Inr again"
        by (cases r1) auto
      have brk: "inbound c1 = []" if "\<not> again"
        using forward_body_break [of c r c1 r1'] fb r1 that by simp
      show ?thesis
      proof (cases "\<not> again \<and> down_done")
        case True
        with Cons.prems Upstream False fb r1 have "c' = c1" "r' = r1'" by auto
        with brk True keep Cons.prems(2) show ?thesis by simp
      next
        case stay: False
        with Cons.prems(3) Upstream False fb r1
        have "gather sched (\<not> again) down_done c1 r1' = (Inr (), c', r')" by auto
        moreover have "\<not> again \<longrightarrow> inbound c1 = []" using brk by simp
        moreover have "down_done \<longrightarrow> inbound r1' = []" using keep Cons.prems(2) by simp
        ultimately show ?thesis by (rule Cons.IH [rotated 2])
      qed
    qed
  next
    case Downstream
    show ?thesis
    proof (cases down_done)
      case True
      with Cons.prems(3) Downstream have "gather sched up_done down_done c r = (Inr (), c', r')"
        by simp
      from Cons.IH [OF Cons.prems(1,2) this] show ?thesis .
    next
      case False
      obtain r1 r1' c1 where fb: "forward_body r c = (r1, r1', c1)"
        by (cases "forward_body r c") auto
      from forward_body_traffic [OF fb] obtain ch where "traffic c c1 [] ch" by blast
      then have keep: "inbound c1 = inbound c" by (rule traffic_no_reads)
      from Cons.prems(3) Downstream False fb obtain again where r1: "r1 = Inr again"
        by (cases r1) auto
      have brk: "inbound r1' = []" if "\<not> again"
        using forward_body_break [of r c r1' c1] fb r1 that by simp
      show ?thesis
      proof (cases "\<not> again \<and> up_done")
        case True
        with Cons.prems Downstream False fb r1 have "c' = c1" "r' = r1'" by auto
        with brk True keep Cons.prems(1) show ?thesis by simp
      next
        case stay: False
        with Cons.prems(3) Downstream False fb r1
        have "gather sched up_done (\<not> again) c1 r1' = (Inr (), c', r')" by auto
        moreover have "up_done \<longrightarrow> inbound c1 = []" using keep Cons.prems(1) by simp
        moreover have "\<not> again \<longrightarrow> inbound r1' = []" using brk by simp
        ultimately show ?thesis by (rule Cons.IH [rotated 2])
      qed
    qed
  qed
qed

subsection \<open>Every run of the session code\<close>

lemma readexactly_ok:
  "n \<le> length (inbound s) \<Longrightarrow>
   readexactly n s = (Inr (take n (inbound s)), s\<lparr>inbound := drop n (inbound s)\<rparr>)"
  by (simp add: readexactly_def)

lemma readexactly_frame: "readexactly n c = (r, c') \<Longrightarrow> read_only c c'"
  by (auto simp: readexactly_def read_only_def split: if_splits stream_end.splits)

lemma close_closes:
  "close s = (if wc_end s = Wait_pending then None else Some (), s\<lparr>closed := True\<rparr>)"
  by (simp add: close_def wait_closed_def split: wait_end.splits)

lemma readbyte_frame: "readbyte c = (r, c') \<Longrightarrow> read_only c c'"
  by (auto simp: readbyte_def bind_io_def return_io_def split: prod.splits sum.splits
      dest: readexactly_frame)

lemma readshort_frame: "readshort c = (r, c') \<Longrightarrow> read_only c c'"
  by (auto simp: readshort_def bind_io_def return_io_def split: prod.splits sum.splits
      dest: readexactly_frame)

lemma readstr_frame: "readstr n c = (r, c') \<Longrightarrow> read_only c c'"
  by (auto simp: readstr_def bind_io_def return_io_def raise_io_def
      split: prod.splits sum.splits option.splits dest: readexactly_frame)

lemma readipv4_frame: "readipv4 c = (r, c') \<Longrightarrow> read_only c c'"
  by (auto simp: readipv4_def bind_io_def return_io_def split: prod.splits sum.splits
      dest: readexactly_frame)

lemma readipv6_frame: "readipv6 c = (r, c') \<Longrightarrow> read_only c c'"
  by (auto simp: readipv6_def bind_io_def return_io_def split: prod.splits sum.splits
      dest: readexactly_frame)

lemma write_bytes_frame:
  "write_bytes data c = (r, c') \<Longrightarrow>
   outbound c' = outbound c @ [data] \<and> taken c' = taken c \<and> closed c' = closed c \<and>
   inbound c' = inbound c \<and> fin c' = fin c \<and> wc_end c' = wc_end c \<and>
   peername c' = peername c \<and> sizes c' = sizes c"
  by (auto simp: write_bytes_def Let_def split: list.splits option.splits)

lemma bind_ioE:
  assumes "bind_io m f s = (res, s')"
  obtains (raised) e where "m s = (Inl e, s')" "res = Inl e"
        | (went) a s1 where "m s = (Inr a, s1)" "f a s1 = (res, s')"
  using assms by (auto simp: bind_io_def split: prod.splits sum.splits)

lemma on_clientD:
  "on_client m s = (r, s') \<Longrightarrow>
   m (client s) = (r, client s') \<and> dials s' = dials s \<and> upstream s' = upstream s \<and>
   logs s' = logs s \<and> stuck s' = stuck s"
  by (auto simp: on_client_def split: prod.splits)

lemma connect_and_relay_summary:
  assumes "connect_and_relay net sched host s = (res, s')"
  shows "quiet_end s s' \<and> outbound (client s') = outbound (client s) \<and> (\<exists>e. res = Inl e)
       \<or> refused_end net host s s' \<and> outbound (client s') = outbound (client s) \<and> res = Inr ()
       \<or> (\<exists>down. relayed_end net host s s' down \<and>
             outbound (client s') = outbound (client s) @ success_reply # down)"
proof (rule bind_ioE [OF assms [unfolded connect_and_relay_def]], goal_cases)
  case (1 e)
  then show ?case
    by (auto simp: quiet_end_def read_only_def dest!: on_clientD readshort_frame)
next
  case (2 port s1)
  note rd = 2(1) and rest = 2(2)
  from rd have f1: "read_only (client s) (client s1)" "dials s1 = dials s"
    "upstream s1 = upstream s" "logs s1 = logs s" "stuck s1 = stuck s"
    by (auto dest!: on_clientD readshort_frame)
  show ?case
  proof (cases "net host port")
    case (Inl e)
    with rest f1 have "refused_end net host s s' \<and> outbound (client s') = outbound (client s) \<and> res = Inr ()"
      by (auto simp: refused_end_def read_only_def)
    then show ?thesis by blast
  next
    case (Inr c)
    obtain w c1 where w: "write_bytes success_reply (client s1) = (w, c1)"
      by (cases "write_bytes success_reply (client s1)") auto
    note wf = write_bytes_frame [OF w]
    show ?thesis
    proof (cases w)
      case (Inl e)
      with rest Inr w wf f1
      have "relayed_end net host s s' [] \<and>
            outbound (client s') = outbound (client s) @ success_reply # []"
        by (auto simp: relayed_end_def read_only_def close_closes SocketWrapper_def)
      then show ?thesis by blast
    next
      case u: (Inr u)
      obtain g c2 r2 where g: "gather sched False False c1 (SocketWrapper c) = (g, c2, r2)"
        by (cases "gather sched False False c1 (SocketWrapper c)") auto
      from gather_traffic [OF g] obtain up down
        where t: "traffic c1 c2 up down" "traffic (SocketWrapper c) r2 down up" by blast
      with rest Inr w wf f1 u g
      have "relayed_end net host s s' down \<and>
            outbound (client s') = outbound (client s) @ success_reply # down"
        by (auto simp: relayed_end_def read_only_def close_closes SocketWrapper_def traffic_def)
      then show ?thesis by blast
    qed
  qed
qed

lemma quiet_refl: "quiet s s []"
  by (simp add: quiet_def quiet_end_def)

lemma quiet_trans: "quiet s s1 w1 \<Longrightarrow> quiet s1 s2 w2 \<Longrightarrow> quiet s s2 (w1 @ w2)"
  by (simp add: quiet_def quiet_end_def)

lemma quiet_read:
  assumes "on_client m s = (r, s')" and "\<And>c r c'. m c = (r, c') \<Longrightarrow> read_only c c'"
  shows "quiet s s' []"
  using assms(1) assms(2) [of "client s" r "client s'"]
  by (auto simp: quiet_def quiet_end_def read_only_def dest!: on_clientD)

lemma quiet_write:
  assumes "on_client (write_bytes d) s = (r, s')"
  shows "quiet s s' [d]"
  using assms
  by (auto simp: quiet_def quiet_end_def dest!: on_clientD write_bytes_frame)

lemma quiet_connect:
  assumes q: "quiet s s1 w" and c: "connect_and_relay net sched host s1 = (res, s')"
  shows "quiet s s' w
       \<or> refused_end net host s s' \<and> outbound (client s') = outbound (client s) @ w \<and> res = Inr ()
       \<or> (\<exists>down. relayed_end net host s s' down \<and>
             outbound (client s') = outbound (client s) @ w @ success_reply # down)"
  using connect_and_relay_summary [OF c] q
  by (auto simp: quiet_def quiet_end_def refused_end_def relayed_end_def)

lemma quiet_readexactly: "on_client (readexactly n) s = (r, s') \<Longrightarrow> quiet s s' []"
  by (erule quiet_read) (rule readexactly_frame)

lemma quiet_readbyte: "on_client readbyte s = (r, s') \<Longrightarrow> quiet s s' []"
  by (erule quiet_read) (rule readbyte_frame)

lemma quiet_readshort: "on_client readshort s = (r, s') \<Longrightarrow> quiet s s' []"
  by (erule quiet_read) (rule readshort_frame)

lemma quiet_readstr: "on_client (readstr n) s = (r, s') \<Longrightarrow> quiet s s' []"
  by (erule quiet_read) (rule readstr_frame)

lemma quiet_readipv4: "on_client readipv4 s = (r, s') \<Longrightarrow> quiet s s' []"
  by (erule quiet_read) (rule readipv4_frame)

lemma quiet_readipv6: "on_client readipv6 s = (r, s') \<Longrightarrow> quiet s s' []"
  by (erule quiet_read) (rule readipv6_frame)

lemma quiet_domain:
  assumes "bind_io (on_client readbyte) (\<lambda>n. on_client (readstr n)) s = (r, s')"
  shows "quiet s s' []"
proof (rule bind_ioE [OF assms], goal_cases)
  case (1 e)
  then show ?case by (auto dest: quiet_readbyte)
next
  case (2 n s1)
  from quiet_trans [OF quiet_readbyte [OF 2(1)] quiet_readstr [OF 2(2)]]
  show ?case by simp
qed

lemma quiet_then_connect:
  assumes q: "quiet s s1 [method_reply]"
    and m: "\<forall>r s2. m s1 = (r, s2) \<longrightarrow> quiet s1 s2 []"
    and run: "bind_io m (connect_and_relay net sched) s1 = (res, s')"
  shows "quiet s s' [method_reply]
       \<or> (\<exists>host. refused_end net host s s' \<and>
             outbound (client s') = outbound (client s) @ [method_reply] \<and> res = Inr ())
       \<or> (\<exists>host down. relayed_end net host s s' down \<and>
             outbound (client s') = outbound (client s) @ method_reply # success_reply # down)"
proof (rule bind_ioE [OF run], goal_cases)
  case (1 e)
  from 1(1) m have "quiet s1 s' []" by blast
  from quiet_trans [OF q this] show ?case by simp
next
  case (2 host s2)
  from 2(1) m have "quiet s1 s2 []" by blast
  from quiet_trans [OF q this] have "quiet s s2 [method_reply]" by simp
  from quiet_connect [OF this 2(2)] show ?case by auto
qed

lemma request_summary:
  assumes q3: "quiet s s3 [method_reply]"
    and run: "request_stage net sched s3 = (res, s')"
  shows "quiet s s' [method_reply]
       \<or> (\<exists>host. refused_end net host s s' \<and>
             outbound (client s') = outbound (client s) @ [method_reply] \<and> res = Inr ())
       \<or> (\<exists>host down. relayed_end net host s s' down \<and>
             outbound (client s') = outbound (client s) @ method_reply # success_reply # down)"
proof (rule bind_ioE [OF run [unfolded request_stage_def]], goal_cases)
  case (1 e)
  from quiet_trans [OF q3 quiet_readexactly [OF 1(1)]] show ?case by simp
next
  case (2 request s4)
  from quiet_trans [OF q3 quiet_readexactly [OF 2(1)]]
  have q4: "quiet s s4 [method_reply]" by simp
  from 2(2) consider
      (stop) "s' = s4"
    | (ipv4) "bind_io (on_client readipv4) (connect_and_relay net sched) s4 = (res, s')"
    | (domain) "bind_io (bind_io (on_client readbyte) (\<lambda>n. on_client (readstr n)))
         (connect_and_relay net sched) s4 = (res, s')"
    | (ipv6) "bind_io (on_client readipv6) (connect_and_relay net sched) s4 = (res, s')"
    by (auto simp: raise_io_def return_io_def split: list.splits if_splits)
  then show ?case
  proof cases
    case stop
    with q4 show ?thesis by simp
  next
    case ipv4
    have "\<forall>r s2. on_client readipv4 s4 = (r, s2) \<longrightarrow> quiet s4 s2 []"
      by (blast intro: quiet_readipv4)
    from quiet_then_connect [OF q4 this ipv4] show ?thesis by blast
  next
    case domain
    have "\<forall>r s2. bind_io (on_client readbyte) (\<lambda>n. on_client (readstr n)) s4 = (r, s2)
            \<longrightarrow> quiet s4 s2 []"
      by (blast intro: quiet_domain)
    from quiet_then_connect [OF q4 this domain] show ?thesis by blast
  next
    case ipv6
    have "\<forall>r s2. on_client readipv6 s4 = (r, s2) \<longrightarrow> quiet s4 s2 []"
      by (blast intro: quiet_readipv6)
    from quiet_then_connect [OF q4 this ipv6] show ?thesis by blast
  qed
qed

lemma core_summary:
  assumes run: "handle_connection_core net sched s = (res, s')"
  shows "quiet s s' [] \<or> quiet s s' [method_reply]
       \<or> (\<exists>host. refused_end net host s s' \<and>
             outbound (client s') = outbound (client s) @ [method_reply] \<and> res = Inr ())
       \<or> (\<exists>host down. relayed_end net host s s' down \<and>
             outbound (client s') = outbound (client s) @ method_reply # success_reply # down)"
proof (rule bind_ioE [OF run [unfolded handle_connection_core_def]], goal_cases)
  case (1 e)
  then show ?case by (auto dest: quiet_readexactly)
next
  case (2 hello s1)
  note q1 = quiet_readexactly [OF 2(1)]
  show ?case
  proof (cases "\<exists>ver nmethods. hello = [ver, nmethods] \<and> \<not> (ver \<noteq> VERSION \<or> nmethods < 1)")
    case False
    with 2(2) have "s' = s1"
      by (auto simp: raise_io_def return_io_def split: list.splits if_splits)
    with q1 show ?thesis by simp
  next
    case True
    then obtain ver nmethods where hello: "hello = [ver, nmethods]"
      and ok: "\<not> (ver \<noteq> VERSION \<or> nmethods < 1)" by blast
    note tail = 2(2) [unfolded hello list.case if_not_P [OF ok]]
    show ?thesis
    proof (rule bind_ioE [OF tail], goal_cases)
      case (1 e)
      from quiet_trans [OF q1 quiet_readexactly [OF 1(1)]] show ?case by simp
    next
      case (2 methods s2)
      from quiet_trans [OF q1 quiet_readexactly [OF 2(1)]] have q2: "quiet s s2 []" by simp
      show ?case
      proof (rule bind_ioE [OF 2(2)], goal_cases)
        case (1 e)
        from quiet_trans [OF q2 quiet_write [OF 1(1)]] show ?case by simp
      next
        case (2 u s3)
        from quiet_trans [OF q2 quiet_write [OF 2(1)]]
        have q3: "quiet s s3 [method_reply]" by simp
        from request_summary [OF q3 2(2)] show ?case by blast
      qed
    qed
  qed
qed

lemma port_big_endian:
  fixes hi lo :: byte
  shows "push_bit 8 (uint hi) OR uint lo = 256 * uint hi + uint lo"
proof -
  have "push_bit 8 (uint hi) AND uint lo = 0"
    by (rule bit_eqI) (auto simp: bit_simps bit_uint_iff dest: bit_imp_le_length)
  from disjunctive_add_eq_or [OF this] show ?thesis
    by (simp add: push_bit_eq_mult)
qed

lemma handle_connection_cases [consumes 1, case_names no_peer served hung]:
  assumes run: "handle_connection net sched c = (r, s')"
  obtains (no_peer) "peername c = None" "r = Inl TypeError"
      "client s' = (SocketWrapper c)\<lparr>closed := True\<rparr>" "upstream s' = None"
      "dials s' = []" "logs s' = []" "stuck s' = (wc_end c = Wait_pending)"
  | (served) a res s1 where "peername c = Some a"
      "handle_connection_core net sched
         \<lparr>client = SocketWrapper c, upstream = None, dials = [], logs = [New_client a],
          stuck = False\<rparr> = (res, s1)"
      "r = Inr ()" "client s' = (client s1)\<lparr>closed := True\<rparr>" "upstream s' = upstream s1"
      "dials s' = dials s1"
      "logs s' = logs s1 @ (case res of Inl e \<Rightarrow> [Unexpected_exception e] | Inr u \<Rightarrow> [])"
      "\<not> stuck s1" "stuck s' = (wc_end (client s1) = Wait_pending)"
  | (hung) a where "peername c = Some a"
      "handle_connection_core net sched
         \<lparr>client = SocketWrapper c, upstream = None, dials = [], logs = [New_client a],
          stuck = False\<rparr> = (r, s')"
      "stuck s'"
proof (cases "peername c")
  case None
  with run no_peer show ?thesis
    by (auto simp: handle_connection_def address_def close_closes SocketWrapper_def)
next
  case (Some a)
  let ?s0 = "\<lparr>client = SocketWrapper c, upstream = None, dials = [], logs = [New_client a],
              stuck = False\<rparr>"
  obtain res s1 where core: "handle_connection_core net sched ?s0 = (res, s1)"
    by (cases "handle_connection_core net sched ?s0") auto
  have pn: "peername (SocketWrapper c) = Some a" using Some by (simp add: SocketWrapper_def)
  show ?thesis
  proof (cases "stuck s1")
    case True
    with run Some core pn have "r = res" "s' = s1"
      by (simp_all add: handle_connection_def address_def)
    with core True show ?thesis by (intro hung [OF Some]) simp_all
  next
    case False
    show ?thesis
    proof (rule served [OF Some core])
      from run Some core pn False show "r = Inr ()"
        by (auto simp: handle_connection_def address_def close_closes Let_def
            split: sum.splits)
      from run Some core pn False show "client s' = (client s1)\<lparr>closed := True\<rparr>"
        by (auto simp: handle_connection_def address_def close_closes Let_def
            split: sum.splits)
      from run Some core pn False show "upstream s' = upstream s1"
        by (auto simp: handle_connection_def address_def close_closes Let_def
            split: sum.splits)
      from run Some core pn False show "dials s' = dials s1"
        by (auto simp: handle_connection_def address_def close_closes Let_def
            split: sum.splits)
      from run Some core pn False
      show "logs s' = logs s1 @ (case res of Inl e \<Rightarrow> [Unexpected_exception e] | Inr u \<Rightarrow> [])"
        by (auto simp: handle_connection_def address_def close_closes Let_def
            split: sum.splits)
      from False show "\<not> stuck s1" .
      from run Some core pn False show "stuck s' = (wc_end (client s1) = Wait_pending)"
        by (auto simp: handle_connection_def address_def close_closes Let_def
            split: sum.splits if_splits)
    qed
  qed
qed

lemma session_sockets:
  assumes run: "handle_connection net sched c = (r, s')"
  shows "length (dials s') \<le> 1 \<and>
         (upstream s' \<noteq> None) = (\<exists>host port cn. dials s' = [(host, port, 10)] \<and> net host port = Inr cn) \<and>
         (case upstream s' of None \<Rightarrow> closed (client s')
          | Some remote \<Rightarrow> closed remote \<and> closed (client s') = (wc_end remote \<noteq> Wait_pending))"
  using run
proof (cases rule: handle_connection_cases)
  case no_peer
  then show ?thesis by simp
next
  case (served a res s1)
  from core_summary [OF served(2)] served(4,5,6,8) show ?thesis
    by (auto simp: quiet_def quiet_end_def refused_end_def relayed_end_def)
next
  case (hung a)
  from core_summary [OF hung(2)] hung(3) show ?thesis
    by (auto simp: quiet_def quiet_end_def refused_end_def relayed_end_def SocketWrapper_def)
qed




subsection \<open>Sessions with a well-formed negotiation\<close>

lemma core_valid_hello:
  assumes "inbound (client s) = 0x05 # n # methods @ rest" "length methods = unat n" "1 \<le> n"
  shows "handle_connection_core net sched s =
           bind_io (on_client (write_bytes method_reply)) (\<lambda>u. request_stage net sched)
             (s\<lparr>client := (client s)\<lparr>inbound := rest\<rparr>\<rparr>)"
  using assms
  by (simp add: handle_connection_core_def bind_io_def on_client_def readexactly_def
      VERSION_def word_less_nat_alt word_le_nat_alt)

lemma request_stage_header:
  assumes "inbound (client s) = ver # cmd # rsv # atyp # rest"
  shows "request_stage net sched s =
           (if ver \<noteq> VERSION \<or> cmd \<noteq> CMD_CONNECT then return_io ()
            else if atyp = ATYP_IPV4 then
              bind_io (on_client readipv4) (connect_and_relay net sched)
            else if atyp = ATYP_DOMAIN then
              bind_io (bind_io (on_client readbyte) (\<lambda>n. on_client (readstr n)))
                (connect_and_relay net sched)
            else if atyp = ATYP_IPV6 then
              bind_io (on_client readipv6) (connect_and_relay net sched)
            else return_io ())
           (s\<lparr>client := (client s)\<lparr>inbound := rest\<rparr>\<rparr>)"
  using assms
  by (simp add: request_stage_def bind_io_def on_client_def readexactly_def)

lemma write_then_request:
  assumes run: "bind_io (on_client (write_bytes method_reply)) (\<lambda>u. request_stage net sched) s1
                  = (res, s')"
  shows "\<exists>more. outbound (client s') = outbound (client s1) @ method_reply # more"
proof (rule bind_ioE [OF run], goal_cases)
  case (1 e)
  from quiet_write [OF 1(1)] show ?case by (simp add: quiet_def)
next
  case (2 u s3)
  from request_summary [OF quiet_write [OF 2(1)] 2(2)] show ?case
    by (auto simp: quiet_def)
qed

lemma refused_request:
  assumes inb: "inbound (client s) = 0x05 # n # methods @ ver # cmd # rsv # atyp # rest"
    and len: "length methods = unat n" and n: "1 \<le> n"
    and bad: "ver \<noteq> 0x05 \<or> cmd \<noteq> 0x01 \<or> (atyp \<noteq> 0x01 \<and> atyp \<noteq> 0x03 \<and> atyp \<noteq> 0x04)"
    and run: "handle_connection_core net sched s = (res, s')"
  shows "quiet s s' [method_reply]"
proof (rule bind_ioE [OF run [unfolded core_valid_hello [OF inb len n]]], goal_cases)
  case (1 e)
  from quiet_write [OF 1(1)] show ?case
    by (simp add: quiet_def quiet_end_def)
next
  case (2 u s3)
  note q = quiet_write [OF 2(1)]
  have "inbound (client s3) = ver # cmd # rsv # atyp # rest"
    using 2(1) by (auto simp: on_client_def dest!: write_bytes_frame split: prod.splits)
  from 2(2) [unfolded request_stage_header [OF this]] bad
  have "s' = s3\<lparr>client := (client s3)\<lparr>inbound := rest\<rparr>\<rparr>"
    by (auto simp: return_io_def VERSION_def CMD_CONNECT_def ATYP_IPV4_def ATYP_DOMAIN_def
        ATYP_IPV6_def split: if_splits)
  with q show ?case
    by (simp add: quiet_def quiet_end_def)
qed

lemma connect_and_relay_refused:
  assumes inb: "inbound (client s) = hi # lo # rest"
    and no: "net host (256 * uint hi + uint lo) = Inl e"
  shows "connect_and_relay net sched host s =
           (Inr (), s\<lparr>client := (client s)\<lparr>inbound := rest\<rparr>,
                      dials := dials s @ [(host, 256 * uint hi + uint lo, 10)],
                      logs := logs s @ [Connect_failed host (256 * uint hi + uint lo) e]\<rparr>)"
  using assms
  by (simp add: connect_and_relay_def bind_io_def on_client_def readshort_def readexactly_def
      return_io_def port_big_endian Let_def)

lemma connect_and_relay_consumes:
  assumes inb: "inbound (client s) = hi # lo # rest"
    and run: "connect_and_relay net sched host s = (res, s')"
  shows "dials s' = dials s @ [(host, 256 * uint hi + uint lo, 10)] \<and> left_over s s' = rest"
proof (cases "net host (256 * uint hi + uint lo)")
  case (Inl e)
  from run [unfolded connect_and_relay_refused [where net = net, OF inb Inl]] show ?thesis
    by (auto simp: left_over_def)
next
  case (Inr cn)
  let ?c0 = "(client s)\<lparr>inbound := rest\<rparr>"
  obtain w c1 where w: "write_bytes success_reply ?c0 = (w, c1)"
    by (cases "write_bytes success_reply ?c0") auto
  note wf = write_bytes_frame [OF w]
  show ?thesis
  proof (cases w)
    case (Inl e)
    with run inb Inr w wf show ?thesis
      by (auto simp: connect_and_relay_def bind_io_def on_client_def readshort_def
          readexactly_def return_io_def port_big_endian Let_def left_over_def close_closes)
  next
    case u: (Inr u)
    obtain g c2 r2 where g: "gather sched False False c1 (SocketWrapper cn) = (g, c2, r2)"
      by (cases "gather sched False False c1 (SocketWrapper cn)") auto
    from gather_traffic [OF g] obtain up down
      where t: "traffic c1 c2 up down" by blast
    with run inb Inr w wf u g show ?thesis
      by (auto simp: connect_and_relay_def bind_io_def on_client_def readshort_def
          readexactly_def return_io_def port_big_endian Let_def left_over_def close_closes traffic_def)
  qed
qed

lemma left_over_shift:
  "taken (client s1) = taken (client s) \<Longrightarrow> left_over s s' = left_over s1 s'"
  by (simp add: left_over_def)

lemma request_ipv4:
  assumes inb: "inbound (client s) = 0x05 # 0x01 # rsv # 0x01 # addr @ hi # lo # rest"
    and len: "length addr = 4"
    and run: "request_stage net sched s = (res, s')"
  shows "dials s' = dials s @ [(Inet_ntop AF_INET addr, 256 * uint hi + uint lo, 10)] \<and>
         left_over s s' = rest"
proof -
  let ?s1 = "s\<lparr>client := (client s)\<lparr>inbound := hi # lo # rest\<rparr>\<rparr>"
  from run [unfolded request_stage_header [OF inb]] len
  have "connect_and_relay net sched (Inet_ntop AF_INET addr) ?s1 = (res, s')"
    by (simp add: VERSION_def CMD_CONNECT_def ATYP_IPV4_def bind_io_def on_client_def
        readipv4_def readexactly_def return_io_def)
  from connect_and_relay_consumes [OF _ this] show ?thesis
    by (simp add: left_over_def)
qed

lemma request_ipv6:
  assumes inb: "inbound (client s) = 0x05 # 0x01 # rsv # 0x04 # addr @ hi # lo # rest"
    and len: "length addr = 16"
    and run: "request_stage net sched s = (res, s')"
  shows "dials s' = dials s @ [(Inet_ntop AF_INET6 addr, 256 * uint hi + uint lo, 10)] \<and>
         left_over s s' = rest"
proof -
  let ?s1 = "s\<lparr>client := (client s)\<lparr>inbound := hi # lo # rest\<rparr>\<rparr>"
  from run [unfolded request_stage_header [OF inb]] len
  have "connect_and_relay net sched (Inet_ntop AF_INET6 addr) ?s1 = (res, s')"
    by (simp add: VERSION_def CMD_CONNECT_def ATYP_IPV4_def ATYP_DOMAIN_def ATYP_IPV6_def
        bind_io_def on_client_def readipv6_def readexactly_def return_io_def)
  from connect_and_relay_consumes [OF _ this] show ?thesis
    by (simp add: left_over_def)
qed

lemma request_domain:
  assumes inb: "inbound (client s) = 0x05 # 0x01 # rsv # 0x03 # len # name @ hi # lo # rest"
    and len: "length name = unat len"
    and dec: "utf8_decode name = Some label"
    and run: "request_stage net sched s = (res, s')"
  shows "dials s' = dials s @ [(Name label, 256 * uint hi + uint lo, 10)] \<and>
         left_over s s' = rest"
proof -
  let ?s1 = "s\<lparr>client := (client s)\<lparr>inbound := hi # lo # rest\<rparr>\<rparr>"
  from run [unfolded request_stage_header [OF inb]] len dec
  have "connect_and_relay net sched (Name label) ?s1 = (res, s')"
    by (simp add: VERSION_def CMD_CONNECT_def ATYP_IPV4_def ATYP_DOMAIN_def
        bind_io_def on_client_def readbyte_def readstr_def readexactly_def return_io_def)
  from connect_and_relay_consumes [OF _ this] show ?thesis
    by (simp add: left_over_def)
qed

lemma request_domain_undecodable:
  assumes inb: "inbound (client s) = 0x05 # 0x01 # rsv # 0x03 # len # name @ rest"
    and len: "length name = unat len"
    and dec: "utf8_decode name = None"
    and run: "request_stage net sched s = (res, s')"
  shows "res = Inl UnicodeDecodeError \<and> dials s' = dials s \<and> left_over s s' = rest"
  using run [unfolded request_stage_header [OF inb]] len dec
  by (auto simp: VERSION_def CMD_CONNECT_def ATYP_IPV4_def ATYP_DOMAIN_def
      bind_io_def on_client_def readbyte_def readstr_def readexactly_def return_io_def
      raise_io_def left_over_def)

lemma request_unknown_atyp:
  assumes inb: "inbound (client s) = 0x05 # 0x01 # rsv # atyp # body"
    and bad: "atyp \<noteq> 0x01" "atyp \<noteq> 0x03" "atyp \<noteq> 0x04"
    and run: "request_stage net sched s = (res, s')"
  shows "res = Inr () \<and> dials s' = dials s \<and> left_over s s' = body"
  using run [unfolded request_stage_header [OF inb]] bad
  by (auto simp: VERSION_def CMD_CONNECT_def ATYP_IPV4_def ATYP_DOMAIN_def ATYP_IPV6_def
      return_io_def left_over_def)

lemma core_to_request:
  assumes hello: "inbound (client s) = 0x05 # n # methods @ request"
    and len: "length methods = unat n" and n: "1 \<le> n"
    and wok: "wfaults (client s) = [] \<or> hd (wfaults (client s)) = None"
    and run: "handle_connection_core net sched s = (res, s')"
  shows "\<exists>s3. request_stage net sched s3 = (res, s') \<and> inbound (client s3) = request \<and>
              taken (client s3) = taken (client s) \<and> dials s3 = dials s"
proof -
  let ?s1 = "s\<lparr>client := (client s)\<lparr>inbound := request\<rparr>\<rparr>"
  from wok have "fst (on_client (write_bytes method_reply) ?s1) = Inr ()"
    by (auto simp: on_client_def write_bytes_def Let_def split: list.splits option.splits)
  then obtain s3 where w: "on_client (write_bytes method_reply) ?s1 = (Inr (), s3)"
    by (cases "on_client (write_bytes method_reply) ?s1") auto
  with run [unfolded core_valid_hello [OF hello len n]]
  have "request_stage net sched s3 = (res, s')"
    by (simp add: bind_io_def)
  moreover from w have "inbound (client s3) = request \<and> taken (client s3) = taken (client s) \<and>
      dials s3 = dials s"
    by (auto simp: on_client_def dest!: write_bytes_frame split: prod.splits)
  ultimately show ?thesis by blast
qed

subsection \<open>Running the examples\<close>

text \<open>
  \<open>forward\<close> unfolds one turn at a time, once the turn's outcome is known.
\<close>

lemma forward_again:
  "fst (forward_body src dst) = Inr True \<Longrightarrow>
   forward src dst = forward (fst (snd (forward_body src dst))) (snd (snd (forward_body src dst)))"
  by (subst forward.simps) (auto split: prod.splits sum.splits)

lemma forward_stop:
  "fst (forward_body src dst) = Inr False \<Longrightarrow>
   forward src dst = (Inr (), snd (forward_body src dst))"
  by (subst forward.simps) (auto split: prod.splits sum.splits)

lemma forward_raise:
  "isl (fst (forward_body src dst)) \<Longrightarrow>
   forward src dst = (Inl (projl (fst (forward_body src dst))), snd (forward_body src dst))"
  by (subst forward.simps) (auto split: prod.splits sum.splits)

lemmas session_defs =
  handle_connection_def handle_connection_core_def request_stage_def connect_and_relay_def
  SocketWrapper_def address_def bind_io_def return_io_def raise_io_def on_client_def
  readexactly_def readbyte_def readshort_def readstr_def readipv4_def readipv6_def
  write_bytes_def close_def wait_closed_def read_def forward_body_def BUF_SIZE_def
  VERSION_def CMD_CONNECT_def ATYP_IPV4_def ATYP_DOMAIN_def ATYP_IPV6_def
  method_reply_def success_reply_def Let_def forward_again forward_stop forward_raise

lemmas example_defs =
  accepting_def refusing_def accepted_def example_client_def example_remote_def
  bind_request_def socks4_request_def stalling_def stalled_remote_def

lemmas more_example_defs =
  unknown_atyp_request_def domain_request_def undecodable_domain_request_def port_only_def

lemma example_relay:
  "handle_connection_core accepting [] (accepted example_client) =
     (Inl TimeoutError,
      \<lparr>client =
         \<lparr>inbound = [], fin = Eof, sizes = [], wfaults = [], wc_end = Wait_returns,
          peername = Some ([0x31, 0x30, 0x2e, 0x30, 0x2e, 0x30, 0x2e, 0x37], 50000),
          taken = [[0x47, 0x45], [0x54]],
          outbound = [[0x05, 0x00], [0x05, 0x00, 0x00, 0x01, 0x00, 0x00, 0x00, 0x00, 0x00, 0x00],
                      [0x48], [0x49]],
          closed = False\<rparr>,
       upstream =
         Some \<lparr>inbound = [], fin = Fails TimeoutError, sizes = [], wfaults = [],
               wc_end = Wait_raises BrokenPipeError, peername = None,
               taken = [[0x48], [0x49]], outbound = [[0x47, 0x45], [0x54]], closed = True\<rparr>,
       dials = [(Inet_ntop AF_INET [0x7f, 0x00, 0x00, 0x01], 80, 10)],
       logs = [Connected (Inet_ntop AF_INET [0x7f, 0x00, 0x00, 0x01]) 80],
       stuck = False\<rparr>)"
  by (simp add: session_defs example_defs)

text \<open>
  A client whose connection breaks right after the request, with the turns
  \<open>[Upstream, Downstream, Downstream]\<close>: the first turn raises, and the loop from
  upstream still relays its two chunks before the sockets are closed.
\<close>

lemma example_lingering_relay:
  "behaviour (handle_connection_core accepting [Upstream, Downstream, Downstream]
     (accepted (example_client\<lparr>inbound :=
        [0x05, 0x01, 0x00, 0x05, 0x01, 0x00, 0x01, 0x7f, 0x00, 0x00, 0x01, 0x00, 0x50],
        fin := Fails ConnectionResetError\<rparr>))) =
     (Inl ConnectionResetError,
      [[0x05, 0x00], [0x05, 0x00, 0x00, 0x01, 0x00, 0x00, 0x00, 0x00, 0x00, 0x00],
       [0x48], [0x49]],
      [], False,
      Some \<lparr>inbound = [], fin = Fails TimeoutError, sizes = [], wfaults = [],
            wc_end = Wait_raises BrokenPipeError, peername = None,
            taken = [[0x48], [0x49]], outbound = [], closed = True\<rparr>,
      [(Inet_ntop AF_INET [0x7f, 0x00, 0x00, 0x01], 80, 10)],
      [Connected (Inet_ntop AF_INET [0x7f, 0x00, 0x00, 0x01]) 80], False)"
  by (simp add: session_defs example_defs behaviour_def)

text \<open>The decoder on well-formed and ill-formed input.\<close>

lemma utf8_decode_examples:
  "utf8_decode [0x41, 0xc3, 0xa9, 0xe2, 0x82, 0xac, 0xf0, 0x9f, 0x98, 0x80] =
     Some [0x41, 0xe9, 0x20ac, 0x1f600]"
  "utf8_decode [0xc0, 0x80] = None"
  "utf8_decode [0xed, 0xa0, 0x80] = None"
  "utf8_decode [0xf4, 0x90, 0x80, 0x80] = None"
  "utf8_decode [0xe2, 0x82] = None"
  "utf8_decode [0xff] = None"
  by (simp_all add: cont_def low6_def)

subsection \<open>The relay\<close>

text \<open>
  C1. One \<open>forward\<close> loop writes to its destination exactly the chunks it reads from its
  source, in the order read, and they are the bytes taken off the head of the source's
  stream; when it returns, the stream has been read to its end. In a relay the same holds
  for both directions at once, under every interleaving of the two loops and whatever way
  the relay ends: the chunks written upstream are those read from the client, the chunks
  written to the client are those read from upstream, and a relay that returns has carried
  both streams whole.
\<close>

theorem relay_writes_what_it_reads:
  "(\<exists>chunks.
      case forward src dst of
        (res, src', dst') \<Rightarrow>
          taken src' = taken src @ chunks \<and> outbound dst' = outbound dst @ chunks \<and>
          inbound src = concat chunks @ inbound src' \<and>
          (case res of Inl e \<Rightarrow> True | Inr u \<Rightarrow> inbound src' = [])) \<and>
   (\<exists>up down.
      case gather sched False False c r of
        (res, c', r') \<Rightarrow>
          taken c' = taken c @ up \<and> outbound r' = outbound r @ up \<and>
          inbound c = concat up @ inbound c' \<and>
          taken r' = taken r @ down \<and> outbound c' = outbound c @ down \<and>
          inbound r = concat down @ inbound r' \<and>
          (case res of Inl e \<Rightarrow> True | Inr u \<Rightarrow> inbound c' = [] \<and> inbound r' = []))"
proof
  obtain res src' dst' where f: "forward src dst = (res, src', dst')"
    by (cases "forward src dst") auto
  from forward_traffic [OF f] obtain chunks
    where t: "traffic src src' chunks []" "traffic dst dst' [] chunks" by blast
  have "case res of Inl e \<Rightarrow> True | Inr u \<Rightarrow> inbound src' = []"
    using forward_returns [of src dst src' dst'] f by (cases res) auto
  with t f show "\<exists>chunks.
      case forward src dst of
        (res, src', dst') \<Rightarrow>
          taken src' = taken src @ chunks \<and> outbound dst' = outbound dst @ chunks \<and>
          inbound src = concat chunks @ inbound src' \<and>
          (case res of Inl e \<Rightarrow> True | Inr u \<Rightarrow> inbound src' = [])"
    by (auto simp: traffic_def)
next
  obtain res c' r' where g: "gather sched False False c r = (res, c', r')"
    by (cases "gather sched False False c r") auto
  from gather_traffic [OF g] obtain up down
    where t: "traffic c c' up down" "traffic r r' down up" by blast
  have "case res of Inl e \<Rightarrow> True | Inr u \<Rightarrow> inbound c' = [] \<and> inbound r' = []"
    using gather_returns [of False c False r sched c' r'] g by (cases res) auto
  with t g show "\<exists>up down.
      case gather sched False False c r of
        (res, c', r') \<Rightarrow>
          taken c' = taken c @ up \<and> outbound r' = outbound r @ up \<and>
          inbound c = concat up @ inbound c' \<and>
          taken r' = taken r @ down \<and> outbound c' = outbound c @ down \<and>
          inbound r = concat down @ inbound r' \<and>
          (case res of Inl e \<Rightarrow> True | Inr u \<Rightarrow> inbound c' = [] \<and> inbound r' = [])"
    by (auto simp: traffic_def)
qed

subsection \<open>Sockets of a session\<close>

text \<open>
  C8, as stated, fails in the code. The client \<open>example_client\<close> completes the handshake
  for 127.0.0.1:80 and sends payload; the destination \<open>stalled_remote\<close> accepts the
  connection and never reads. The relay's second drain to the destination is cut off by
  the deadline, \<open>gather\<close> raises \<open>TimeoutError\<close>, and the \<open>async with\<close> of the upstream
  socket calls \<open>remote.close()\<close>: \<open>writer.close()\<close> is called, and the \<open>wait_closed\<close>
  after it, awaited under no deadline, stays pending. The session is stuck there:
  \<open>client.close()\<close> is never reached, the client socket is left open, and the exception is
  never logged. Against \<open>example_remote\<close>, whose \<open>wait_closed\<close> ends, the same client is
  closed.
\<close>

theorem client_left_open_when_upstream_close_hangs:
  "(case handle_connection stalling [] example_client of
      (r, s') \<Rightarrow>
        stuck s' \<and> \<not> closed (client s') \<and>
        map_option closed (upstream s') = Some True \<and>
        map_option wc_end (upstream s') = Some Wait_pending \<and>
        map_option outbound (upstream s') = Some [[0x47, 0x45], [0x54]] \<and>
        r = Inl TimeoutError \<and>
        outbound (client s') =
          [[0x05, 0x00], [0x05, 0x00, 0x00, 0x01, 0x00, 0x00, 0x00, 0x00, 0x00, 0x00]] \<and>
        logs s' =
          [New_client ([0x31, 0x30, 0x2e, 0x30, 0x2e, 0x30, 0x2e, 0x37], 50000),
           Connected (Inet_ntop AF_INET [0x7f, 0x00, 0x00, 0x01]) 80]) \<and>
   (case handle_connection accepting [] example_client of
      (r, s') \<Rightarrow>
        \<not> stuck s' \<and> closed (client s') \<and> map_option closed (upstream s') = Some True \<and>
        r = Inr ())"
  by (simp add: session_defs example_defs)

subsection \<open>Replies\<close>

text \<open>
  C2. A session of \<open>handle_connection_core\<close> that dialled a destination and whose dial
  succeeded has an upstream socket, and what was written to the client is the method reply,
  then the ten bytes \<open>05 00 00 01 00 00 00 00 00 00\<close>, then the chunks read from the
  upstream socket, in this order and with nothing else.
\<close>

theorem success_reply_before_payload:
  assumes run: "handle_connection_core net sched s = (res, s')"
    and dial: "dials s' = dials s @ [(host, port, t)]"
    and ok: "net host port = Inr cn"
  shows "\<exists>remote. upstream s' = Some remote \<and>
           outbound (client s') =
             outbound (client s) @ method_reply #
               [0x05, 0x00, 0x00, 0x01, 0x00, 0x00, 0x00, 0x00, 0x00, 0x00] # taken remote \<and>
           inbound cn = concat (taken remote) @ inbound remote"
  using core_summary [OF run] dial ok
  by (auto simp: quiet_def quiet_end_def refused_end_def relayed_end_def success_reply_def)

theorem success_reply_before_payload_witness:
  "\<exists>remote.
      upstream (snd (handle_connection_core accepting [] (accepted example_client))) = Some remote \<and>
      outbound (client (snd (handle_connection_core accepting [] (accepted example_client)))) =
        [0x05, 0x00] # [0x05, 0x00, 0x00, 0x01, 0x00, 0x00, 0x00, 0x00, 0x00, 0x00] #
        taken remote \<and>
      taken remote = [[0x48], [0x49]]"
proof -
  let ?X = "handle_connection_core accepting [] (accepted example_client)"
  have d: "dials (snd ?X) =
      dials (accepted example_client) @ [(Inet_ntop AF_INET [0x7f, 0x00, 0x00, 0x01], 80, 10)]"
    by (simp add: example_relay) (simp add: accepted_def)
  have n: "accepting (Inet_ntop AF_INET [0x7f, 0x00, 0x00, 0x01]) 80 = Inr example_remote"
    by (simp add: accepting_def)
  have o: "outbound (client (accepted example_client)) = []"
    by (simp add: accepted_def SocketWrapper_def)
  have t: "map_option taken (upstream (snd ?X)) = Some [[0x48], [0x49]]"
    by (simp add: example_relay)
  have x: "?X = (fst ?X, snd ?X)"
    by simp
  from success_reply_before_payload
    [where net = accepting and sched = "[]" and s = "accepted example_client", OF x d n] o t
  show ?thesis
    by (auto simp: method_reply_def)
qed




subsection \<open>The handshake\<close>

text \<open>
  C3. When the stream opens with version 5, a method count \<open>n\<close> of at least one and \<open>n\<close>
  method bytes, the first thing \<open>handle_connection_core\<close> writes is the two bytes
  \<open>05 00\<close>, whatever follows; and the whole run is the same for any other \<open>n\<close> method
  bytes in their place.
\<close>

theorem method_reply_is_fixed:
  assumes "inbound (client s) = 0x05 # n # methods @ rest"
    and "length methods = unat n" and "1 \<le> n"
    and "length methods' = unat n"
  shows "(\<exists>more. outbound (client (snd (handle_connection_core net sched s))) =
            outbound (client s) @ [0x05, 0x00] # more) \<and>
         handle_connection_core net sched
           (s\<lparr>client := (client s)\<lparr>inbound := 0x05 # n # methods' @ rest\<rparr>\<rparr>) =
         handle_connection_core net sched s"
proof
  let ?s1 = "s\<lparr>client := (client s)\<lparr>inbound := rest\<rparr>\<rparr>"
  obtain res s' where run: "handle_connection_core net sched s = (res, s')"
    by (cases "handle_connection_core net sched s") auto
  from write_then_request [OF run [unfolded core_valid_hello [OF assms(1-3)]]] run
  show "\<exists>more. outbound (client (snd (handle_connection_core net sched s))) =
            outbound (client s) @ [0x05, 0x00] # more"
    by (simp add: method_reply_def)
  have "handle_connection_core net sched
           (s\<lparr>client := (client s)\<lparr>inbound := 0x05 # n # methods' @ rest\<rparr>\<rparr>) =
        bind_io (on_client (write_bytes method_reply)) (\<lambda>u. request_stage net sched) ?s1"
    using assms(3,4) by (subst core_valid_hello [where n = n and methods = methods' and rest = rest]) simp_all
  with core_valid_hello [OF assms(1-3)]
  show "handle_connection_core net sched
           (s\<lparr>client := (client s)\<lparr>inbound := 0x05 # n # methods' @ rest\<rparr>\<rparr>) =
         handle_connection_core net sched s"
    by simp
qed

theorem method_reply_is_fixed_witness:
  "(\<exists>more. outbound (client (snd (handle_connection_core accepting []
       (accepted example_client)))) = [0x05, 0x00] # more) \<and>
   handle_connection_core accepting []
     ((accepted example_client)\<lparr>client := (client (accepted example_client))\<lparr>inbound :=
        0x05 # 0x01 # [0x02] @
        [0x05, 0x01, 0x00, 0x01, 0x7f, 0x00, 0x00, 0x01, 0x00, 0x50, 0x47, 0x45, 0x54]\<rparr>\<rparr>) =
   handle_connection_core accepting [] (accepted example_client)"
  using method_reply_is_fixed
    [where s = "accepted example_client" and n = 1 and methods = "[0x00]"
       and methods' = "[0x02]" and net = accepting and sched = "[]"
       and rest = "[0x05, 0x01, 0x00, 0x01, 0x7f, 0x00, 0x00, 0x01, 0x00, 0x50, 0x47, 0x45, 0x54]"]
  by (simp add: example_defs SocketWrapper_def)

text \<open>
  C6. After a well-formed negotiation, a request header whose version is not 5 or whose
  command is not 1 ends \<open>handle_connection_core\<close> with the method reply as the only
  thing written to the client, no dial, no upstream socket and nothing logged.
\<close>

theorem bad_request_gets_no_reply:
  assumes "inbound (client s) = 0x05 # n # methods @ ver # cmd # rsv # atyp # rest"
    and "length methods = unat n" and "1 \<le> n"
    and "ver \<noteq> 0x05 \<or> cmd \<noteq> 0x01"
  shows "outbound (client (snd (handle_connection_core net sched s))) =
           outbound (client s) @ [[0x05, 0x00]] \<and>
         dials (snd (handle_connection_core net sched s)) = dials s \<and>
         upstream (snd (handle_connection_core net sched s)) = upstream s \<and>
         logs (snd (handle_connection_core net sched s)) = logs s"
proof -
  obtain res s' where run: "handle_connection_core net sched s = (res, s')"
    by (cases "handle_connection_core net sched s") auto
  from assms(4) have "ver \<noteq> 0x05 \<or> cmd \<noteq> 0x01 \<or> (atyp \<noteq> 0x01 \<and> atyp \<noteq> 0x03 \<and> atyp \<noteq> 0x04)"
    by blast
  from refused_request [OF assms(1-3) this run] run show ?thesis
    by (simp add: quiet_def quiet_end_def method_reply_def)
qed

theorem bad_request_gets_no_reply_witness:
  "outbound (client (snd (handle_connection_core accepting [] (accepted bind_request)))) =
     [[0x05, 0x00]] \<and>
   dials (snd (handle_connection_core accepting [] (accepted bind_request))) = [] \<and>
   upstream (snd (handle_connection_core accepting [] (accepted bind_request))) = None \<and>
   logs (snd (handle_connection_core accepting [] (accepted bind_request))) = []"
  using bad_request_gets_no_reply
    [where s = "accepted bind_request" and n = 1 and methods = "[0x00]" and ver = "0x05"
       and cmd = "0x02" and rsv = "0x00" and atyp = "0x01" and net = accepting and sched = "[]"
       and rest = "[0x7f, 0x00, 0x00, 0x01, 0x00, 0x50]"]
  by (simp add: example_defs SocketWrapper_def)

text \<open>
  C9. After a well-formed negotiation, a request header with a wrong version, a command
  other than CONNECT or an address type other than 1, 3 and 4 ends the session: when
  \<open>handle_connection\<close> is left the client socket is closed and the two bytes \<open>05 00\<close>
  are all that was ever written to it; no dial was made.
\<close>

theorem aborted_request_leaves_method_reply:
  assumes "inbound c = 0x05 # n # methods @ ver # cmd # rsv # atyp # rest"
    and "length methods = unat n" and "1 \<le> n"
    and "ver \<noteq> 0x05 \<or> cmd \<noteq> 0x01 \<or> (atyp \<noteq> 0x01 \<and> atyp \<noteq> 0x03 \<and> atyp \<noteq> 0x04)"
    and "peername c = Some a"
  shows "outbound (client (snd (handle_connection net sched c))) = [[0x05, 0x00]] \<and>
         closed (client (snd (handle_connection net sched c))) \<and>
         upstream (snd (handle_connection net sched c)) = None \<and>
         dials (snd (handle_connection net sched c)) = []"
proof -
  obtain r s' where run: "handle_connection net sched c = (r, s')"
    by (cases "handle_connection net sched c") auto
  from run show ?thesis
  proof (cases rule: handle_connection_cases)
    case no_peer
    with assms(5) show ?thesis by simp
  next
    case (served a' res s1)
    have "inbound (client \<lparr>client = SocketWrapper c, upstream = None, dials = [],
            logs = [New_client a'], stuck = False\<rparr>) =
          0x05 # n # methods @ ver # cmd # rsv # atyp # rest"
      using assms(1) by (simp add: SocketWrapper_def)
    from refused_request [OF this assms(2-4) served(2)] served(4-6) run show ?thesis
      by (simp add: quiet_def quiet_end_def method_reply_def SocketWrapper_def)
  next
    case (hung a')
    have "inbound (client \<lparr>client = SocketWrapper c, upstream = None, dials = [],
            logs = [New_client a'], stuck = False\<rparr>) =
          0x05 # n # methods @ ver # cmd # rsv # atyp # rest"
      using assms(1) by (simp add: SocketWrapper_def)
    from refused_request [OF this assms(2-4) hung(2)] hung(3) show ?thesis
      by (simp add: quiet_def quiet_end_def)
  qed
qed

theorem aborted_request_leaves_method_reply_witness:
  "outbound (client (snd (handle_connection accepting [] unknown_atyp_request))) =
     [[0x05, 0x00]] \<and>
   closed (client (snd (handle_connection accepting [] unknown_atyp_request))) \<and>
   upstream (snd (handle_connection accepting [] unknown_atyp_request)) = None \<and>
   dials (snd (handle_connection accepting [] unknown_atyp_request)) = []"
  using aborted_request_leaves_method_reply
    [where c = unknown_atyp_request and n = 1 and methods = "[0x00]" and ver = "0x05"
       and cmd = "0x01" and rsv = "0x00" and atyp = "0x02" and net = accepting and sched = "[]"
       and rest = "[0x7f, 0x00, 0x00, 0x01, 0x00, 0x50]"
       and a = "([0x31, 0x30, 0x2e, 0x30, 0x2e, 0x30, 0x2e, 0x37], 50000)"]
  by (simp add: example_defs more_example_defs)

text \<open>
  C10. For a CONNECT request with version 5 after a well-formed negotiation, the run of
  \<open>handle_connection_core\<close> behaves the same for every value of the reserved byte.
\<close>

theorem reserved_byte_is_ignored:
  assumes "inbound (client s) = 0x05 # n # methods @ 0x05 # 0x01 # rsv # atyp # rest"
    and "length methods = unat n" and "1 \<le> n"
  shows "behaviour (handle_connection_core net sched
           (s\<lparr>client := (client s)
              \<lparr>inbound := 0x05 # n # methods @ 0x05 # 0x01 # rsv' # atyp # rest\<rparr>\<rparr>)) =
         behaviour (handle_connection_core net sched s)"
proof -
  let ?s' = "s\<lparr>client := (client s)
              \<lparr>inbound := 0x05 # n # methods @ 0x05 # 0x01 # rsv' # atyp # rest\<rparr>\<rparr>"
  let ?w = "write_bytes method_reply"
  have w: "snd (?w (c\<lparr>inbound := bs\<rparr>)) = (snd (?w c))\<lparr>inbound := bs\<rparr> \<and>
           fst (?w (c\<lparr>inbound := bs\<rparr>)) = fst (?w c)" for c :: sock and bs
    by (simp add: write_bytes_def Let_def split: list.splits option.splits)
  have hdr: "request_stage net sched (t\<lparr>client := c\<lparr>inbound := 0x05 # 0x01 # r # atyp # rest\<rparr>\<rparr>) =
             request_stage net sched (t\<lparr>client := c\<lparr>inbound := 0x05 # 0x01 # r' # atyp # rest\<rparr>\<rparr>)"
    for t :: session and c :: sock and r r'
    by (simp add: request_stage_header [where rsv = r and rest = rest]
        request_stage_header [where rsv = r' and rest = rest])
  have "handle_connection_core net sched ?s' =
        bind_io (on_client ?w) (\<lambda>u. request_stage net sched)
          (?s'\<lparr>client := (client ?s')\<lparr>inbound := 0x05 # 0x01 # rsv' # atyp # rest\<rparr>\<rparr>)"
    using assms(2,3)
    by (intro core_valid_hello [where n = n and methods = methods]) simp_all
  moreover have "handle_connection_core net sched s =
        bind_io (on_client ?w) (\<lambda>u. request_stage net sched)
          (s\<lparr>client := (client s)\<lparr>inbound := 0x05 # 0x01 # rsv # atyp # rest\<rparr>\<rparr>)"
    using assms by (intro core_valid_hello [where n = n and methods = methods]) simp_all
  ultimately show ?thesis
    using hdr [where t = s and c = "snd (?w (client s))" and r = rsv' and r' = rsv]
      w [where c = "client s"]
    by (simp add: bind_io_def on_client_def case_prod_beta behaviour_def split: sum.splits)
qed

theorem reserved_byte_is_ignored_witness:
  "behaviour (handle_connection_core accepting []
     ((accepted example_client)\<lparr>client := (client (accepted example_client))\<lparr>inbound :=
        0x05 # 0x01 # [0x00] @ 0x05 # 0x01 # 0xff # 0x01 #
        [0x7f, 0x00, 0x00, 0x01, 0x00, 0x50, 0x47, 0x45, 0x54]\<rparr>\<rparr>)) =
   behaviour (handle_connection_core accepting [] (accepted example_client))"
  using reserved_byte_is_ignored
    [where s = "accepted example_client" and n = 1 and methods = "[0x00]" and rsv = "0x00"
       and rsv' = "0xff" and atyp = "0x01" and net = accepting and sched = "[]"
       and rest = "[0x7f, 0x00, 0x00, 0x01, 0x00, 0x50, 0x47, 0x45, 0x54]"]
  by (simp add: example_defs SocketWrapper_def)

text \<open>
  C4, as amended. After a well-formed negotiation whose reply was written, and a CONNECT
  request header with version 5: address type 1 takes 4 address bytes and address type 4
  takes 16, then 2 port bytes; address type 3 takes one length byte \<open>N\<close> and \<open>N\<close> name
  bytes, then 2 port bytes when the name is well-formed UTF-8, and nothing more when it is
  not, the run ending in \<open>UnicodeDecodeError\<close> with no dial; any other address type
  takes nothing and ends the run. The port is the big-endian value of its two bytes, below
  65536, and host and port are what is dialled.
\<close>

theorem address_bytes_consumed:
  assumes "inbound (client s) = 0x05 # n # methods @ 0x05 # 0x01 # rsv # atyp # body"
    and "length methods = unat n" and "1 \<le> n"
    and "wfaults (client s) = [] \<or> hd (wfaults (client s)) = None"
    and "handle_connection_core net sched s = (res, s')"
  shows "(atyp = 0x01 \<and> body = addr @ hi # lo # rest \<and> length addr = 4 \<longrightarrow>
            dials s' = dials s @ [(Inet_ntop AF_INET addr, 256 * uint hi + uint lo, 10)] \<and>
            left_over s s' = rest) \<and>
         (atyp = 0x04 \<and> body = addr @ hi # lo # rest \<and> length addr = 16 \<longrightarrow>
            dials s' = dials s @ [(Inet_ntop AF_INET6 addr, 256 * uint hi + uint lo, 10)] \<and>
            left_over s s' = rest) \<and>
         (atyp = 0x03 \<and> body = len # name @ hi # lo # rest \<and> length name = unat len \<and>
          utf8_decode name = Some label \<longrightarrow>
            dials s' = dials s @ [(Name label, 256 * uint hi + uint lo, 10)] \<and>
            left_over s s' = rest) \<and>
         (atyp = 0x03 \<and> body = len # name @ tail \<and> length name = unat len \<and>
          utf8_decode name = None \<longrightarrow>
            res = Inl UnicodeDecodeError \<and> dials s' = dials s \<and> left_over s s' = tail) \<and>
         (atyp \<noteq> 0x01 \<and> atyp \<noteq> 0x03 \<and> atyp \<noteq> 0x04 \<longrightarrow>
            res = Inr () \<and> dials s' = dials s \<and> left_over s s' = body) \<and>
         0 \<le> 256 * uint hi + uint lo \<and> 256 * uint hi + uint lo < 65536"
proof -
  from core_to_request [OF assms] obtain s3
    where run: "request_stage net sched s3 = (res, s')"
      and inb: "inbound (client s3) = 0x05 # 0x01 # rsv # atyp # body"
      and tk: "taken (client s3) = taken (client s)" and dl: "dials s3 = dials s"
    by blast
  note shift = left_over_shift [OF tk]
  have "uint hi < 256" "uint lo < 256"
    using uint_bounded [of hi] uint_bounded [of lo] by simp_all
  then have range: "0 \<le> 256 * uint hi + uint lo \<and> 256 * uint hi + uint lo < 65536"
    by simp
  have v4: "dials s' = dials s @ [(Inet_ntop AF_INET addr, 256 * uint hi + uint lo, 10)] \<and>
            left_over s s' = rest"
    if "atyp = 0x01" "body = addr @ hi # lo # rest" "length addr = 4"
    using request_ipv4 [OF _ that(3) run] inb that(1,2) dl shift by simp
  have v6: "dials s' = dials s @ [(Inet_ntop AF_INET6 addr, 256 * uint hi + uint lo, 10)] \<and>
            left_over s s' = rest"
    if "atyp = 0x04" "body = addr @ hi # lo # rest" "length addr = 16"
    using request_ipv6 [OF _ that(3) run] inb that(1,2) dl shift by simp
  have dom: "dials s' = dials s @ [(Name label, 256 * uint hi + uint lo, 10)] \<and>
            left_over s s' = rest"
    if "atyp = 0x03" "body = len # name @ hi # lo # rest" "length name = unat len"
      "utf8_decode name = Some label"
    using request_domain [OF _ that(3,4) run] inb that(1,2) dl shift by simp
  have und: "res = Inl UnicodeDecodeError \<and> dials s' = dials s \<and> left_over s s' = tail"
    if "atyp = 0x03" "body = len # name @ tail" "length name = unat len"
      "utf8_decode name = None"
    using request_domain_undecodable [OF _ that(3,4) run] inb that(1,2) dl shift by simp
  have unk: "res = Inr () \<and> dials s' = dials s \<and> left_over s s' = body"
    if "atyp \<noteq> 0x01" "atyp \<noteq> 0x03" "atyp \<noteq> 0x04"
    using request_unknown_atyp [OF inb that run] dl shift by simp
  show ?thesis
    by (intro conjI impI; (elim conjE)?) (simp_all only: v4 v6 dom und range, insert unk, simp_all)
qed

theorem address_bytes_consumed_witness:
  "dials (snd (handle_connection_core refusing [] (accepted domain_request))) =
     [(Name [0x61, 0x2e, 0x62], 443, 10)] \<and>
   left_over (accepted domain_request)
     (snd (handle_connection_core refusing [] (accepted domain_request))) = [0x47]"
  using address_bytes_consumed
    [where s = "accepted domain_request" and n = 1 and methods = "[0x00]" and rsv = "0x00"
       and atyp = "0x03" and net = refusing and sched = "[]"
       and body = "[0x03, 0x61, 0x2e, 0x62, 0x01, 0xbb, 0x47]"
       and res = "fst (handle_connection_core refusing [] (accepted domain_request))"
       and s' = "snd (handle_connection_core refusing [] (accepted domain_request))"
       and len = "0x03" and name = "[0x61, 0x2e, 0x62]" and hi = "0x01" and lo = "0xbb"
       and rest = "[0x47]" and label = "[0x61, 0x2e, 0x62]"]
  by (simp add: example_defs more_example_defs SocketWrapper_def)

text \<open>
  C4, as stated, fails: with address type 3 and a name that is not UTF-8 (here the single
  byte \<open>ff\<close>), the run ends in \<open>UnicodeDecodeError\<close> after the length byte and the name;
  the two port bytes stay unread and nothing is dialled.
\<close>

theorem port_is_not_read_after_undecodable_name:
  "fst (handle_connection_core accepting [] (accepted undecodable_domain_request)) =
     Inl UnicodeDecodeError \<and>
   inbound (client (snd (handle_connection_core accepting []
     (accepted undecodable_domain_request)))) = [0x00, 0x50] \<and>
   dials (snd (handle_connection_core accepting [] (accepted undecodable_domain_request))) = []"
  by (simp add: session_defs example_defs more_example_defs)

subsection \<open>The dial\<close>

text \<open>
  C7. Once the host is resolved and the two port bytes are there, \<open>connect_and_relay\<close>
  dials that host and port once, under a deadline of 10; when the dial fails, the run
  returns with nothing written to the client, no upstream socket, and the failure logged
  with host and port. A whole run of \<open>handle_connection_core\<close> dials at most once, and a
  failed dial leaves the method reply as the only thing written.
\<close>

theorem one_dial_with_ten_second_deadline:
  assumes "inbound (client s) = hi # lo # rest"
  shows "(case connect_and_relay net sched host s of
            (res, s') \<Rightarrow>
              dials s' = dials s @ [(host, 256 * uint hi + uint lo, 10)] \<and>
              (case net host (256 * uint hi + uint lo) of
                 Inl e \<Rightarrow>
                   res = Inr () \<and> outbound (client s') = outbound (client s) \<and>
                   upstream s' = upstream s \<and>
                   logs s' = logs s @ [Connect_failed host (256 * uint hi + uint lo) e]
               | Inr cn \<Rightarrow>
                   upstream s' \<noteq> None \<and>
                   logs s' = logs s @ [Connected host (256 * uint hi + uint lo)])) \<and>
         (case handle_connection_core net sched s0 of
            (res, s') \<Rightarrow>
              dials s' = dials s0 \<and> logs s' = logs s0 \<or>
              (\<exists>h p. dials s' = dials s0 @ [(h, p, 10)] \<and>
                 (case net h p of
                    Inl e \<Rightarrow>
                      res = Inr () \<and> upstream s' = upstream s0 \<and>
                      outbound (client s') = outbound (client s0) @ [method_reply] \<and>
                      logs s' = logs s0 @ [Connect_failed h p e]
                  | Inr cn \<Rightarrow> upstream s' \<noteq> None)))"
proof
  obtain res s' where run: "connect_and_relay net sched host s = (res, s')"
    by (cases "connect_and_relay net sched host s") auto
  note d = connect_and_relay_consumes [OF assms run]
  from connect_and_relay_summary [OF run] d run
  show "case connect_and_relay net sched host s of
            (res, s') \<Rightarrow>
              dials s' = dials s @ [(host, 256 * uint hi + uint lo, 10)] \<and>
              (case net host (256 * uint hi + uint lo) of
                 Inl e \<Rightarrow>
                   res = Inr () \<and> outbound (client s') = outbound (client s) \<and>
                   upstream s' = upstream s \<and>
                   logs s' = logs s @ [Connect_failed host (256 * uint hi + uint lo) e]
               | Inr cn \<Rightarrow>
                   upstream s' \<noteq> None \<and>
                   logs s' = logs s @ [Connected host (256 * uint hi + uint lo)])"
    by (auto simp: quiet_end_def refused_end_def relayed_end_def split: sum.splits)
next
  obtain res s' where run: "handle_connection_core net sched s0 = (res, s')"
    by (cases "handle_connection_core net sched s0") auto
  have "dials s' = dials s0 \<and> logs s' = logs s0 \<or>
        (\<exists>h p. dials s' = dials s0 @ [(h, p, 10)] \<and>
           (case net h p of
              Inl e \<Rightarrow>
                res = Inr () \<and> upstream s' = upstream s0 \<and>
                outbound (client s') = outbound (client s0) @ [method_reply] \<and>
                logs s' = logs s0 @ [Connect_failed h p e]
            | Inr cn \<Rightarrow> upstream s' \<noteq> None))"
    using core_summary [OF run]
  proof (elim disjE exE conjE, goal_cases)
    case 1
    then show ?case by (simp add: quiet_def quiet_end_def)
  next
    case 2
    then show ?case by (simp add: quiet_def quiet_end_def)
  next
    case (3 h)
    then obtain p e where "dials s' = dials s0 @ [(h, p, 10)]" "net h p = Inl e"
      "logs s' = logs s0 @ [Connect_failed h p e]" "upstream s' = upstream s0"
      by (auto simp: refused_end_def)
    with 3 have "dials s' = dials s0 @ [(h, p, 10)] \<and>
           (case net h p of
              Inl e \<Rightarrow>
                res = Inr () \<and> upstream s' = upstream s0 \<and>
                outbound (client s') = outbound (client s0) @ [method_reply] \<and>
                logs s' = logs s0 @ [Connect_failed h p e]
            | Inr cn \<Rightarrow> upstream s' \<noteq> None)"
      by simp
    then show ?case by blast
  next
    case (4 h down)
    then obtain p cn where "dials s' = dials s0 @ [(h, p, 10)]" "net h p = Inr cn"
      "upstream s' \<noteq> None"
      by (auto simp: relayed_end_def)
    then have "dials s' = dials s0 @ [(h, p, 10)] \<and>
           (case net h p of
              Inl e \<Rightarrow>
                res = Inr () \<and> upstream s' = upstream s0 \<and>
                outbound (client s') = outbound (client s0) @ [method_reply] \<and>
                logs s' = logs s0 @ [Connect_failed h p e]
            | Inr cn \<Rightarrow> upstream s' \<noteq> None)"
      by simp
    then show ?case by blast
  qed
  with run
  show "case handle_connection_core net sched s0 of
            (res, s') \<Rightarrow>
              dials s' = dials s0 \<and> logs s' = logs s0 \<or>
              (\<exists>h p. dials s' = dials s0 @ [(h, p, 10)] \<and>
                 (case net h p of
                    Inl e \<Rightarrow>
                      res = Inr () \<and> upstream s' = upstream s0 \<and>
                      outbound (client s') = outbound (client s0) @ [method_reply] \<and>
                      logs s' = logs s0 @ [Connect_failed h p e]
                  | Inr cn \<Rightarrow> upstream s' \<noteq> None))"
    by simp
qed

theorem one_dial_with_ten_second_deadline_witness:
  "fst (connect_and_relay refusing [] (Name [0x61, 0x2e, 0x62]) (accepted port_only)) = Inr () \<and>
   dials (snd (connect_and_relay refusing [] (Name [0x61, 0x2e, 0x62]) (accepted port_only))) =
     [(Name [0x61, 0x2e, 0x62], 80, 10)] \<and>
   logs (snd (connect_and_relay refusing [] (Name [0x61, 0x2e, 0x62]) (accepted port_only))) =
     [Connect_failed (Name [0x61, 0x2e, 0x62]) 80 ConnectionRefusedError] \<and>
   outbound (client (snd (connect_and_relay refusing [] (Name [0x61, 0x2e, 0x62])
     (accepted port_only)))) = [] \<and>
   upstream (snd (connect_and_relay refusing [] (Name [0x61, 0x2e, 0x62])
     (accepted port_only))) = None"
  using one_dial_with_ten_second_deadline
    [where s = "accepted port_only" and hi = "0x00" and lo = "0x50" and rest = "[]"
       and net = refusing and sched = "[]" and host = "Name [0x61, 0x2e, 0x62]"
       and ?s0.0 = "accepted example_client"]
  by (simp add: example_defs more_example_defs SocketWrapper_def case_prod_beta)

end
